theory Spec2Isabelle
  imports Complex_Main "HOL-Library.Word" "HOL-Library.Sublist"
    "HOL-Library.Signed_Division" "HOL-Library.AList" "HOL-Library.Multiset"
begin

section \<open>Go library functions used by the two commands\<close>

text \<open>
  Strings are byte lists, as Go's are. The library functions below are written from
  their documented behaviour; the functions of the repository follow in the later
  sections, each next to the lines of the source it embeds.
\<close>

datatype panic = IndexOutOfRange

text \<open>Indexing a slice: Go panics when the index is out of range.\<close>

definition index :: "'a list \<Rightarrow> nat \<Rightarrow> panic + 'a" where
  "index xs i = (if i < length xs then Inr (xs ! i) else Inl IndexOutOfRange)"

text \<open>\<^verbatim>\<open>strings.Split(s, sep)\<close> for a one-byte separator: \<open>n + 1\<close> pieces for \<open>n\<close>
  separators, and one empty piece for the empty string.\<close>

fun strings_Split :: "string \<Rightarrow> char \<Rightarrow> string list" where
  "strings_Split [] c = [[]]"
| "strings_Split (x # xs) c =
     (if x = c then [] # strings_Split xs c
      else (case strings_Split xs c of
              [] \<Rightarrow> [[x]]
            | p # ps \<Rightarrow> (x # p) # ps))"

definition strings_TrimPrefix :: "string \<Rightarrow> string \<Rightarrow> string" where
  "strings_TrimPrefix s p = (if prefix p s then drop (length p) s else s)"

definition strings_TrimSuffix :: "string \<Rightarrow> string \<Rightarrow> string" where
  "strings_TrimSuffix s p = (if suffix p s then take (length s - length p) s else s)"

text \<open>\<^verbatim>\<open>filepath.Base\<close> on a Unix path: trailing slashes are dropped, then everything up
  to the last slash; the empty path gives \<open>.\<close> and a path of slashes gives \<open>/\<close>.\<close>

definition strip_trailing_slashes :: "string \<Rightarrow> string" where
  "strip_trailing_slashes p = rev (dropWhile (\<lambda>c. c = CHR ''/'') (rev p))"

definition last_element :: "string \<Rightarrow> string" where
  "last_element p = rev (takeWhile (\<lambda>c. c \<noteq> CHR ''/'') (rev p))"

definition filepath_Base :: "string \<Rightarrow> string" where
  "filepath_Base path =
     (if path = [] then ''.''
      else let p = last_element (strip_trailing_slashes path)
           in if p = [] then ''/'' else p)"

text \<open>\<^verbatim>\<open>strconv.Atoi\<close>: an optional sign, then decimal digits. A syntax error gives 0; a value
  outside \<open>int64\<close> gives the nearest bound. Both come with an error, which the callers
  in this repository discard, so the result carries it as a flag.\<close>

datatype num_error = ErrSyntax | ErrRange

definition is_digit :: "char \<Rightarrow> bool" where
  "is_digit c = (48 \<le> (of_char c :: nat) \<and> (of_char c :: nat) \<le> 57)"

definition digit_val :: "char \<Rightarrow> nat" where
  "digit_val c = of_char c - 48"

definition maxUint64 :: nat where
  "maxUint64 = 18446744073709551615"

text \<open>The digit loop of \<^verbatim>\<open>ParseUint\<close> in base 10: it stops with a range error as soon as the
  value leaves \<open>uint64\<close>, before it looks at the bytes that follow.\<close>

fun parse_digits :: "nat \<Rightarrow> string \<Rightarrow> nat \<times> num_error option" where
  "parse_digits n [] = (n, None)"
| "parse_digits n (c # cs) =
     (if \<not> is_digit c then (0, Some ErrSyntax)
      else if n \<ge> maxUint64 div 10 + 1 then (maxUint64, Some ErrRange)
      else if n * 10 + digit_val c > maxUint64 then (maxUint64, Some ErrRange)
      else parse_digits (n * 10 + digit_val c) cs)"

definition strconv_ParseUint :: "string \<Rightarrow> nat \<times> num_error option" where
  "strconv_ParseUint s = (if s = [] then (0, Some ErrSyntax) else parse_digits 0 s)"

definition strconv_Atoi :: "string \<Rightarrow> int \<times> num_error option" where
  "strconv_Atoi s =
     (if s = [] then (0, Some ErrSyntax)
      else let neg = (hd s = CHR ''-'');
               body = (if hd s = CHR ''+'' \<or> hd s = CHR ''-'' then tl s else s);
               (un, err) = strconv_ParseUint body
           in if err = Some ErrSyntax then (0, err)
              else if \<not> neg \<and> un \<ge> 2 ^ 63 then (2 ^ 63 - 1, Some ErrRange)
              else if neg \<and> un > 2 ^ 63 then (- (2 ^ 63), Some ErrRange)
              else (if neg then - int un else int un, None))"

section \<open>Filename codec\<close>

text \<open>
  \<^verbatim>\<open>getForecastHour\<close> (cmd/ingest/main.go): the base name is split at the dots, fewer than
  five parts give \<open>-1\<close>, otherwise the fifth part without a leading \<open>f\<close> goes through
  \<^verbatim>\<open>Atoi\<close>, whose error is dropped. The read of \<^verbatim>\<open>parts[4]\<close> is an indexed read that
  could panic.
\<close>

definition getForecastHour :: "string \<Rightarrow> panic + int" where
  "getForecastHour filename =
     (let base = filepath_Base filename;
          parts = strings_Split base CHR ''.''
      in if length parts < 5 then Inr (- 1)
         else (case index parts 4 of
                 Inl p \<Rightarrow> Inl p
               | Inr part \<Rightarrow> Inr (fst (strconv_Atoi (strings_TrimPrefix part ''f'')))))"

text \<open>The downloader's side (cmd/download/main.go): the resolution, the list of forecast
  hours, and the file name \<^verbatim>\<open>fmt.Sprintf("gfs.t%sz.pgrb2.%s.f%s", cycle, resolution, hour)\<close>.\<close>

definition resolution :: string where
  "resolution = ''0p25''"

definition forecastHours :: "string list" where
  "forecastHours =
     [''000'', ''001'', ''002'', ''003'', ''004'', ''005'', ''006'', ''007'', ''008'',
      ''009'', ''010'', ''011'', ''012'', ''013'', ''014'', ''015'', ''016'', ''017'',
      ''018'', ''019'', ''020'', ''021'', ''022'', ''023'', ''024'']"

definition gfs_filename :: "string \<Rightarrow> string \<Rightarrow> string" where
  "gfs_filename cycle hour = ''gfs.t'' @ cycle @ ''z.pgrb2.'' @ resolution @ ''.f'' @ hour"

text \<open>The four cycle hours \<^verbatim>\<open>getCurrentCycle\<close> can return.\<close>

definition cycleHours :: "string list" where
  "cycleHours = [''00'', ''06'', ''12'', ''18'']"

section \<open>Wind direction\<close>

text \<open>
  \<^verbatim>\<open>float64\<close> values are modelled as exact reals throughout: rounding, infinities and NaN are
  outside the model.

  \<^verbatim>\<open>degreesToCardinal\<close> (cmd/ingest/main.go) has two loops, each a recursive function with
  its own termination proof, then the index \<^verbatim>\<open>int((degrees+11.25)/22.5) % 16\<close> into the table
  of sixteen labels. Go's conversion to \<^verbatim>\<open>int\<close> truncates towards zero and its \<^verbatim>\<open>%\<close> takes the
  sign of the dividend (\<open>smod\<close>); the read of the table is an indexed read.
\<close>

function add_turns :: "real \<Rightarrow> real" where
  "add_turns degrees = (if degrees < 0 then add_turns (degrees + 360) else degrees)"
  by pat_completeness auto
termination
proof (relation "measure (\<lambda>d. nat \<lceil>- d / 360\<rceil>)")
  show "wf (measure (\<lambda>d::real. nat \<lceil>- d / 360\<rceil>))" by simp
next
  fix d :: real assume d: "d < 0"
  have "- (d + 360) / 360 = - d / 360 - 1" by (simp add: field_simps)
  then have "\<lceil>- (d + 360) / 360\<rceil> = \<lceil>- d / 360 - 1\<rceil>" by (rule arg_cong)
  also have "\<dots> = \<lceil>- d / 360\<rceil> - 1" by (rule ceiling_diff_one)
  finally have 1: "\<lceil>- (d + 360) / 360\<rceil> = \<lceil>- d / 360\<rceil> - 1" .
  have 2: "0 < \<lceil>- d / 360\<rceil>" using d by (simp add: field_simps)
  from 1 2 have "nat \<lceil>- (d + 360) / 360\<rceil> < nat \<lceil>- d / 360\<rceil>" by linarith
  then show "(d + 360, d) \<in> measure (\<lambda>d. nat \<lceil>- d / 360\<rceil>)" by (simp only: in_measure)
qed

declare add_turns.simps [simp del]

function drop_turns :: "real \<Rightarrow> real" where
  "drop_turns degrees = (if degrees \<ge> 360 then drop_turns (degrees - 360) else degrees)"
  by pat_completeness auto
termination
proof (relation "measure (\<lambda>d. nat \<lfloor>d / 360\<rfloor>)")
  show "wf (measure (\<lambda>d::real. nat \<lfloor>d / 360\<rfloor>))" by simp
next
  fix d :: real assume d: "360 \<le> d"
  have "(d - 360) / 360 = d / 360 - 1" by (simp add: field_simps)
  then have "\<lfloor>(d - 360) / 360\<rfloor> = \<lfloor>d / 360 - 1\<rfloor>" by (rule arg_cong)
  also have "\<dots> = \<lfloor>d / 360\<rfloor> - 1" by (rule floor_diff_one)
  finally have 1: "\<lfloor>(d - 360) / 360\<rfloor> = \<lfloor>d / 360\<rfloor> - 1" .
  have 2: "0 < \<lfloor>d / 360\<rfloor>" using d by (simp add: field_simps)
  from 1 2 have "nat \<lfloor>(d - 360) / 360\<rfloor> < nat \<lfloor>d / 360\<rfloor>" by linarith
  then show "(d - 360, d) \<in> measure (\<lambda>d. nat \<lfloor>d / 360\<rfloor>)" by (simp only: in_measure)
qed

declare drop_turns.simps [simp del]

definition directions :: "string list" where
  "directions = [''N'', ''NNE'', ''NE'', ''ENE'', ''E'', ''ESE'', ''SE'', ''SSE'',
                 ''S'', ''SSW'', ''SW'', ''WSW'', ''W'', ''WNW'', ''NW'', ''NNW'']"

definition int_of_float :: "real \<Rightarrow> int" where
  "int_of_float x = (if x \<ge> 0 then \<lfloor>x\<rfloor> else \<lceil>x\<rceil>)"

definition index_int :: "'a list \<Rightarrow> int \<Rightarrow> panic + 'a" where
  "index_int xs i = (if 0 \<le> i \<and> i < int (length xs) then Inr (xs ! nat i)
                     else Inl IndexOutOfRange)"

definition cardinal_index :: "real \<Rightarrow> int" where
  "cardinal_index degrees =
     int_of_float ((drop_turns (add_turns degrees) + 11.25) / 22.5) smod 16"

definition degreesToCardinal :: "real \<Rightarrow> panic + string" where
  "degreesToCardinal degrees = index_int directions (cardinal_index degrees)"

section \<open>Timestamps\<close>

text \<open>
  A \<^verbatim>\<open>time.Time\<close> is the number of nanoseconds since the Unix epoch, in UTC, and a calendar
  date is its day number. The calendar itself is not modelled:
  \<^item> \<^verbatim>\<open>time.Now().Format("20060102")\<close> followed by \<^verbatim>\<open>time.Parse\<close> of those eight digits gives
    midnight UTC of the day the clock shows, so the clock enters as the day number
    \<open>today\<close>;
  \<^item> \<^verbatim>\<open>Format("2006-01-02 15:04")\<close> in UTC is the minute a time lies in, and
    \<^verbatim>\<open>time.Parse\<close> of two such strings compares as the minutes do, so the formatted
    timestamp of a forecast is the minute number.
\<close>

type_synonym Time = int

definition Minute :: int where
  "Minute = 60 * 1000000000"

definition Hour :: int where
  "Hour = 60 * Minute"

definition Day :: int where
  "Day = 24 * Hour"

text \<open>\<^verbatim>\<open>time.Duration(forecastHour) * time.Hour\<close> is a product of two \<^verbatim>\<open>int64\<close>: it wraps.\<close>

definition hours_duration :: "int \<Rightarrow> int" where
  "hours_duration h = sint (word_of_int h * word_of_int Hour :: 64 word)"

text \<open>\<^verbatim>\<open>getnum\<close> of package time: two digits, or one when the second byte is no digit and
  the field is not of fixed width.\<close>

definition getnum :: "string \<Rightarrow> bool \<Rightarrow> (nat \<times> string) option" where
  "getnum s fixed =
     (if \<not> (s \<noteq> [] \<and> is_digit (s ! 0)) then None
      else if \<not> (length s \<ge> 2 \<and> is_digit (s ! 1)) then
        (if fixed then None else Some (digit_val (s ! 0), drop 1 s))
      else Some (digit_val (s ! 0) * 10 + digit_val (s ! 1), drop 2 s))"

text \<open>\<^verbatim>\<open>time.Parse("200601021504", date + clock)\<close> where \<open>date\<close> is the eight digits of
  \<open>today\<close>: the layout's \<^verbatim>\<open>15\<close> reads an hour of one or two digits below 24, its \<^verbatim>\<open>04\<close>
  a minute of two digits below 60, and nothing may follow.\<close>

definition time_Parse :: "int \<Rightarrow> string \<Rightarrow> Time option" where
  "time_Parse today clock =
     (case getnum clock False of
        None \<Rightarrow> None
      | Some (hour, rest) \<Rightarrow>
          if hour \<ge> 24 then None
          else (case getnum rest True of
                  None \<Rightarrow> None
                | Some (minute, rest') \<Rightarrow>
                    if minute \<ge> 60 then None
                    else if rest' \<noteq> [] then None
                    else Some (today * Day + int hour * Hour + int minute * Minute)))"

section \<open>Grid decoder adapter\<close>

record ForecastData =
  Timestamp :: Time
  Temp2m :: real
  UWind10m :: real
  VWind10m :: real
  WindGust :: real
  WindSpeed :: real
  WindDir :: real

datatype ingest_error =
    InvalidFilename
  | CycleTimeParse
  | InvalidForecastHour
  | CreatingPipe
  | StartingWgrib2
  | RunningAwk
  | Wgrib2Error
  | InsufficientData
  | ParsingWindGust
  | ParsingTemperature
  | ParsingUWind
  | ParsingVWind

text \<open>What running \<^verbatim>\<open>wgrib2 ... | awk\<close> for one file gave: the first of the four calls
  (\<^verbatim>\<open>StdoutPipe\<close>, \<^verbatim>\<open>Start\<close>, awk's \<^verbatim>\<open>Output\<close>, \<^verbatim>\<open>Wait\<close>) that failed, or awk's output. When
  only \<^verbatim>\<open>Wait\<close> fails, awk has still delivered its output.\<close>

datatype exec_result =
    PipeFailed
  | StartFailed
  | AwkFailed
  | WaitFailed string
  | Completed string

text \<open>\<^verbatim>\<open>strings.TrimSpace\<close>: white space in Unicode's sense, as UTF-8 byte sequences, is
  removed from both ends.\<close>

definition space_seqs :: "string list" where
  "space_seqs =
     [[CHR 0x09], [CHR 0x0A], [CHR 0x0B], [CHR 0x0C], [CHR 0x0D], [CHR 0x20],
      [CHR 0xC2, CHR 0x85], [CHR 0xC2, CHR 0xA0],
      [CHR 0xE1, CHR 0x9A, CHR 0x80],
      [CHR 0xE2, CHR 0x80, CHR 0x80], [CHR 0xE2, CHR 0x80, CHR 0x81],
      [CHR 0xE2, CHR 0x80, CHR 0x82], [CHR 0xE2, CHR 0x80, CHR 0x83],
      [CHR 0xE2, CHR 0x80, CHR 0x84], [CHR 0xE2, CHR 0x80, CHR 0x85],
      [CHR 0xE2, CHR 0x80, CHR 0x86], [CHR 0xE2, CHR 0x80, CHR 0x87],
      [CHR 0xE2, CHR 0x80, CHR 0x88], [CHR 0xE2, CHR 0x80, CHR 0x89],
      [CHR 0xE2, CHR 0x80, CHR 0x8A], [CHR 0xE2, CHR 0x80, CHR 0xA8],
      [CHR 0xE2, CHR 0x80, CHR 0xA9], [CHR 0xE2, CHR 0x80, CHR 0xAF],
      [CHR 0xE2, CHR 0x81, CHR 0x9F], [CHR 0xE3, CHR 0x80, CHR 0x80]]"

function trim_leading :: "string list \<Rightarrow> string \<Rightarrow> string" where
  "trim_leading seqs s =
     (case find (\<lambda>q. q \<noteq> [] \<and> prefix q s) seqs of
        None \<Rightarrow> s
      | Some q \<Rightarrow> trim_leading seqs (drop (length q) s))"
  by pat_completeness auto
termination
proof (relation "measure (\<lambda>(seqs, s). length s)")
  show "wf (measure (\<lambda>(seqs :: string list, s :: string). length s))" by simp
next
  fix seqs :: "string list" and s q :: string
  assume "find (\<lambda>q. q \<noteq> [] \<and> prefix q s) seqs = Some q"
  then have "q \<noteq> [] \<and> prefix q s" by (auto simp: find_Some_iff)
  then have "length (drop (length q) s) < length s"
    by (cases s) (auto simp: prefix_def)
  then show "((seqs, drop (length q) s), (seqs, s)) \<in> measure (\<lambda>(seqs, s). length s)"
    by simp
qed

declare trim_leading.simps [simp del]

definition strings_TrimSpace :: "string \<Rightarrow> string" where
  "strings_TrimSpace s =
     rev (trim_leading (map rev space_seqs) (rev (trim_leading space_seqs s)))"

text \<open>
  \<^verbatim>\<open>processGFSFile\<close> (cmd/ingest/main.go), in its two halves. The first resolves the
  timestamp from the name and the clock: the second part of the name without \<^verbatim>\<open>t\<close> and
  \<^verbatim>\<open>z\<close> is the cycle hour, parsed behind today's date, and the forecast hour is added.
\<close>

definition resolve_timestamp :: "int \<Rightarrow> string \<Rightarrow> panic + (ingest_error + Time)" where
  "resolve_timestamp today file =
     (let base = filepath_Base file;
          parts = strings_Split base CHR ''.''
      in if length parts < 5 then Inr (Inl InvalidFilename)
         else (case index parts 1 of
                 Inl p \<Rightarrow> Inl p
               | Inr part \<Rightarrow>
                   let cycleHour = strings_TrimSuffix (strings_TrimPrefix part ''t'') ''z''
                   in (case time_Parse today (cycleHour @ ''00'') of
                         None \<Rightarrow> Inr (Inl CycleTimeParse)
                       | Some cycleTime \<Rightarrow>
                           (case getForecastHour file of
                              Inl p \<Rightarrow> Inl p
                            | Inr forecastHour \<Rightarrow>
                                if forecastHour < 0 then Inr (Inl InvalidForecastHour)
                                else Inr (Inr (cycleTime + hours_duration forecastHour))))))"

text \<open>The second half parses awk's output: trimmed, split into lines, at least four of
  them, and the first four through \<^verbatim>\<open>strconv.ParseFloat\<close> in the order gust, temperature,
  U wind, V wind. \<^verbatim>\<open>ParseFloat\<close> is a parameter: \<open>None\<close> is its error.\<close>

definition parse_values ::
  "(string \<Rightarrow> real option) \<Rightarrow> Time \<Rightarrow> string \<Rightarrow> panic + (ingest_error + ForecastData)" where
  "parse_values ParseFloat ts output =
     (let lines = strings_Split (strings_TrimSpace output) CHR 0x0A
      in if length lines < 4 then Inr (Inl InsufficientData)
         else (case (index lines 0, index lines 1, index lines 2, index lines 3) of
                 (Inr l0, Inr l1, Inr l2, Inr l3) \<Rightarrow>
                   (case ParseFloat l0 of
                      None \<Rightarrow> Inr (Inl ParsingWindGust)
                    | Some gust \<Rightarrow>
                   (case ParseFloat l1 of
                      None \<Rightarrow> Inr (Inl ParsingTemperature)
                    | Some temp \<Rightarrow>
                   (case ParseFloat l2 of
                      None \<Rightarrow> Inr (Inl ParsingUWind)
                    | Some u \<Rightarrow>
                   (case ParseFloat l3 of
                      None \<Rightarrow> Inr (Inl ParsingVWind)
                    | Some v \<Rightarrow>
                        Inr (Inr \<lparr>Timestamp = ts, Temp2m = temp, UWind10m = u,
                                  VWind10m = v, WindGust = gust, WindSpeed = 0,
                                  WindDir = 0\<rparr>)))))
               | _ \<Rightarrow> Inl IndexOutOfRange))"

definition processGFSFile ::
  "(string \<Rightarrow> real option) \<Rightarrow> int \<Rightarrow> exec_result \<Rightarrow> string
     \<Rightarrow> panic + (ingest_error + ForecastData)" where
  "processGFSFile ParseFloat today run file =
     (case resolve_timestamp today file of
        Inl p \<Rightarrow> Inl p
      | Inr (Inl e) \<Rightarrow> Inr (Inl e)
      | Inr (Inr ts) \<Rightarrow>
          (case run of
             PipeFailed \<Rightarrow> Inr (Inl CreatingPipe)
           | StartFailed \<Rightarrow> Inr (Inl StartingWgrib2)
           | AwkFailed \<Rightarrow> Inr (Inl RunningAwk)
           | WaitFailed output \<Rightarrow> Inr (Inl Wgrib2Error)
           | Completed output \<Rightarrow> parse_values ParseFloat ts output))"

section \<open>Extraction and aggregation engine\<close>

record ForecastOutput =
  Timestamp :: int
  TempC :: real
  WindKt :: real
  GustKt :: real
  Direction :: string

text \<open>\<^verbatim>\<open>math.Atan2(y, x)\<close> on the reals: the angle of the point \<open>(x, y)\<close> in \<open>(-pi, pi]\<close>.\<close>

definition math_Atan2 :: "real \<Rightarrow> real \<Rightarrow> real" where
  "math_Atan2 y x =
     (if x > 0 then arctan (y / x)
      else if x < 0 \<and> y \<ge> 0 then arctan (y / x) + pi
      else if x < 0 \<and> y < 0 then arctan (y / x) - pi
      else if y > 0 then pi / 2
      else if y < 0 then - pi / 2
      else 0)"

text \<open>The body of the merge loop of \<^verbatim>\<open>Ingest\<close>: one sample becomes one output record,
  whose timestamp is the sample's time formatted to the minute.\<close>

definition toOutput :: "ForecastData \<Rightarrow> panic + ForecastOutput" where
  "toOutput f =
     (let tempC = Temp2m f - 273.15;
          windSpeed = sqrt (UWind10m f * UWind10m f + VWind10m f * VWind10m f);
          windDirRad = math_Atan2 (- UWind10m f) (- VWind10m f);
          windDir0 = windDirRad * 180 / pi;
          windDir = (if windDir0 < 0 then windDir0 + 360 else windDir0);
          windSpeedKnots = windSpeed * 1.94384;
          windGustKnots = WindGust f * 1.94384
      in (case degreesToCardinal windDir of
            Inl p \<Rightarrow> Inl p
          | Inr cardinalDir \<Rightarrow>
              Inr \<lparr>Timestamp = ForecastData.Timestamp f div Minute, TempC = tempC,
                   WindKt = windSpeedKnots, GustKt = windGustKnots,
                   Direction = cardinalDir\<rparr>))"

text \<open>\<^verbatim>\<open>timestampMap\<close> is an association list with one entry per key; \<^verbatim>\<open>timestampMap[k] = v\<close>
  replaces the entry of \<open>k\<close> or adds one.\<close>

fun merge_forecasts ::
  "ForecastData list \<Rightarrow> (int \<times> ForecastOutput) list \<Rightarrow> panic + (int \<times> ForecastOutput) list" where
  "merge_forecasts [] timestampMap = Inr timestampMap"
| "merge_forecasts (f # fs) timestampMap =
     (case toOutput f of
        Inl p \<Rightarrow> Inl p
      | Inr out \<Rightarrow>
          merge_forecasts fs (AList.update (ForecastOutput.Timestamp out) out timestampMap))"

text \<open>Lines 121 to 168 of \<^verbatim>\<open>Ingest\<close>: merge, flatten the map, sort by timestamp. Go
  iterates a map in no fixed order; the association list's order stands for one of
  them, and with one entry per timestamp the sort gives the same result for all.\<close>

definition aggregate :: "ForecastData list \<Rightarrow> panic + ForecastOutput list" where
  "aggregate forecasts =
     (case merge_forecasts forecasts [] of
        Inl p \<Rightarrow> Inl p
      | Inr timestampMap \<Rightarrow> Inr (sort_key ForecastOutput.Timestamp (map snd timestampMap)))"

text \<open>
  What \<^verbatim>\<open>Ingest\<close> reads from outside: whether \<^verbatim>\<open>wgrib2\<close> is on the path, what the glob
  returns (\<open>None\<close> for its error), the day each file's worker reads from the clock, what the
  decoder gives for each file, and \<^verbatim>\<open>strconv.ParseFloat\<close>. The workers run concurrently and
  append under the mutex in the order they finish; \<open>finish_time\<close> gives each file's
  worker the instant of its append.
\<close>

record ingest_env =
  wgrib2_installed :: bool
  glob :: "string list option"
  finish_time :: "string \<Rightarrow> nat"
  now_date :: "string \<Rightarrow> int"
  run_decoder :: "string \<Rightarrow> real \<Rightarrow> real \<Rightarrow> exec_result"
  ParseFloat :: "string \<Rightarrow> real option"

datatype 'a outcome = Fatal | Crashed panic | Returned 'a

text \<open>\<^verbatim>\<open>sort.Slice(files, ...)\<close> by forecast hour: the key of every file is computed by
  \<^verbatim>\<open>getForecastHour\<close>.\<close>

fun forecast_hours :: "string list \<Rightarrow> panic + (int \<times> string) list" where
  "forecast_hours [] = Inr []"
| "forecast_hours (f # fs) =
     (case getForecastHour f of
        Inl p \<Rightarrow> Inl p
      | Inr h \<Rightarrow> (case forecast_hours fs of
                    Inl p \<Rightarrow> Inl p
                  | Inr hs \<Rightarrow> Inr ((h, f) # hs)))"

definition sort_files :: "string list \<Rightarrow> panic + string list" where
  "sort_files files =
     (case forecast_hours files of
        Inl p \<Rightarrow> Inl p
      | Inr hs \<Rightarrow> Inr (map snd (sort_key fst hs)))"

text \<open>The workers, in the order of their appends: a file whose processing fails is logged
  and adds nothing.\<close>

fun collect :: "ingest_env \<Rightarrow> real \<Rightarrow> real \<Rightarrow> string list \<Rightarrow> panic + ForecastData list" where
  "collect env lon lat [] = Inr []"
| "collect env lon lat (f # fs) =
     (case processGFSFile (ParseFloat env) (now_date env f) (run_decoder env f lon lat) f of
        Inl p \<Rightarrow> Inl p
      | Inr (Inl e) \<Rightarrow> collect env lon lat fs
      | Inr (Inr data) \<Rightarrow>
          (case collect env lon lat fs of
             Inl p \<Rightarrow> Inl p
           | Inr forecasts \<Rightarrow> Inr (data # forecasts)))"

definition Ingest ::
  "ingest_env \<Rightarrow> real \<Rightarrow> real \<Rightarrow> (ForecastOutput list \<times> ingest_error option) outcome" where
  "Ingest env lon lat =
     (if \<not> wgrib2_installed env then Fatal
      else (case glob env of
              None \<Rightarrow> Fatal
            | Some files \<Rightarrow>
                (case sort_files files of
                   Inl p \<Rightarrow> Crashed p
                 | Inr sorted_files \<Rightarrow>
                     (case collect env lon lat (sort_key (finish_time env) sorted_files) of
                        Inl p \<Rightarrow> Crashed p
                      | Inr forecasts \<Rightarrow>
                          (case aggregate (sort_key ForecastData.Timestamp forecasts) of
                             Inl p \<Rightarrow> Crashed p
                           | Inr output \<Rightarrow> Returned (output, None))))))"

text \<open>The handler of \<^verbatim>\<open>GET /forecast\<close> in \<^verbatim>\<open>main\<close>: both parameters through
  \<^verbatim>\<open>ParseFloat\<close>, then \<^verbatim>\<open>Ingest\<close>, whose error decides between the statuses 500 and 200.\<close>

datatype response = StatusBadRequest | StatusInternalServerError | StatusOK "ForecastOutput list"

definition handler :: "ingest_env \<Rightarrow> string \<Rightarrow> string \<Rightarrow> response outcome" where
  "handler env lon lat =
     (case ParseFloat env lon of
        None \<Rightarrow> Returned StatusBadRequest
      | Some lonFloat \<Rightarrow>
          (case ParseFloat env lat of
             None \<Rightarrow> Returned StatusBadRequest
           | Some latFloat \<Rightarrow>
               (case Ingest env lonFloat latFloat of
                  Fatal \<Rightarrow> Fatal
                | Crashed p \<Rightarrow> Crashed p
                | Returned (forecast, Some err) \<Rightarrow> Returned StatusInternalServerError
                | Returned (forecast, None) \<Rightarrow> Returned (StatusOK forecast))))"

section \<open>Fetch orchestrator\<close>

text \<open>
  The downloader (cmd/download/main.go) works on two directories: the published one
  (\<^verbatim>\<open>./gfs_data\<close>) and the staging one that \<^verbatim>\<open>os.MkdirTemp\<close> creates beside it. A directory is
  absent (\<open>None\<close>) or maps the names of its files to their sizes. The state also records
  the URLs requested and the number of \<^verbatim>\<open>time.Sleep(retryDelay)\<close> calls, and whether the
  context has been cancelled.
\<close>

definition baseURL :: string where
  "baseURL = ''https://nomads.ncep.noaa.gov/pub/data/nccf/com/gfs/prod''"

definition maxRetries :: nat where
  "maxRetries = 3"

definition min_size :: nat where
  "min_size = 2 ^ 20"

type_synonym dir = "string \<rightharpoonup> nat"

record fs_state =
  published :: "dir option"
  staging :: "dir option"
  requests :: "string list"
  sleeps :: nat
  cancelled :: bool

datatype dl_error =
    CreatingRequest
  | CreatingOutputFile
  | MakingRequest
  | UnexpectedStatus nat
  | DownloadingFile
  | FileTooSmall
  | DownloadFailed dl_error
  | RenameFailed
  | FailedAfter nat "dl_error option"
  | ContextCanceled
  | MkdirParentFailed
  | MkdirTempFailed
  | DownloadsFailed nat
  | RemoveOldFailed
  | MoveFailed

text \<open>What one call of \<^verbatim>\<open>downloadFile\<close> and the rename after it meet: whether the request
  can be built, whether \<^verbatim>\<open>os.Create\<close> succeeds, what \<^verbatim>\<open>client.Do\<close> and \<^verbatim>\<open>io.Copy\<close> give (an
  error, or a status with the number of bytes written and whether the copy finished),
  and whether \<^verbatim>\<open>os.Rename\<close> succeeds.\<close>

datatype http_result = DoFailed | Response nat nat bool

record attempt_env =
  req_ok :: bool
  create_ok :: bool
  http :: http_result
  rename_ok :: bool

record download_env =
  mkdir_parent_ok :: bool
  mkdir_temp_ok :: bool
  clock_hour :: nat
  date_today :: string
  date_yesterday :: string
  attempts :: "string \<Rightarrow> nat \<Rightarrow> attempt_env"
  remove_old_ok :: bool
  remove_old_rest :: "dir option"
  move_ok :: bool

definition getCurrentCycle :: "download_env \<Rightarrow> string \<times> string" where
  "getCurrentCycle env =
     (if clock_hour env \<ge> 23 then (date_today env, ''18'')
      else if clock_hour env \<ge> 17 then (date_today env, ''12'')
      else if clock_hour env \<ge> 11 then (date_today env, ''06'')
      else if clock_hour env \<ge> 5 then (date_today env, ''00'')
      else (date_yesterday env, ''18''))"

definition stat :: "fs_state \<Rightarrow> string \<Rightarrow> nat option" where
  "stat s name = (case staging s of None \<Rightarrow> None | Some d \<Rightarrow> d name)"

definition remove_file :: "string \<Rightarrow> fs_state \<Rightarrow> fs_state" where
  "remove_file name s =
     (case staging s of None \<Rightarrow> s | Some d \<Rightarrow> s\<lparr>staging := Some (d(name := None))\<rparr>)"

definition rename_file :: "string \<Rightarrow> string \<Rightarrow> fs_state \<Rightarrow> fs_state" where
  "rename_file old new s =
     (case staging s of
        None \<Rightarrow> s
      | Some d \<Rightarrow> s\<lparr>staging := Some ((d(old := None))(new := d old))\<rparr>)"

text \<open>\<^verbatim>\<open>downloadFile\<close>: the file is created (and so emptied) before the request is made,
  and the body is copied into it only after a status 200.\<close>

definition downloadFile ::
  "attempt_env \<Rightarrow> string \<Rightarrow> string \<Rightarrow> fs_state \<Rightarrow> dl_error option \<times> fs_state" where
  "downloadFile a url outputPath s =
     (if \<not> req_ok a then (Some CreatingRequest, s)
      else (case staging s of
              None \<Rightarrow> (Some CreatingOutputFile, s)
            | Some d \<Rightarrow>
                if \<not> create_ok a then (Some CreatingOutputFile, s)
                else let s1 = s\<lparr>staging := Some (d(outputPath \<mapsto> 0)),
                                 requests := requests s @ [url]\<rparr>
                     in (case http a of
                           DoFailed \<Rightarrow> (Some MakingRequest, s1)
                         | Response code n copied \<Rightarrow>
                             if code \<noteq> 200 then (Some (UnexpectedStatus code), s1)
                             else let s2 = s1\<lparr>staging := Some (d(outputPath \<mapsto> n))\<rparr>
                                  in if \<not> copied then (Some DownloadingFile, s2)
                                     else (None, s2))))"

text \<open>One pass through the body of the retry loop of \<^verbatim>\<open>downloadWithRetry\<close>: \<open>Inl\<close> is a
  \<^verbatim>\<open>return\<close> from inside the loop, \<open>Inr\<close> the new \<^verbatim>\<open>lastErr\<close> with which the loop goes on.\<close>

definition try_download ::
  "attempt_env \<Rightarrow> string \<Rightarrow> string \<Rightarrow> fs_state
     \<Rightarrow> (dl_error option \<times> fs_state) + (dl_error \<times> fs_state)" where
  "try_download a url filename s =
     (let tempPath = filename @ ''.tmp'';
          (err, s1) = downloadFile a url tempPath s
      in (case err of
            Some e \<Rightarrow> Inr (DownloadFailed e, s1)
          | None \<Rightarrow>
              (case stat s1 tempPath of
                 None \<Rightarrow> Inr (FileTooSmall, s1)
               | Some sz \<Rightarrow>
                   if sz > min_size then
                     (if rename_ok a then Inl (None, rename_file tempPath filename s1)
                      else Inl (Some RenameFailed, remove_file tempPath s1))
                   else Inr (FileTooSmall, s1))))"

function retry_loop ::
  "download_env \<Rightarrow> string \<Rightarrow> string \<Rightarrow> string \<Rightarrow> nat \<Rightarrow> dl_error option \<Rightarrow> fs_state
     \<Rightarrow> dl_error option \<times> fs_state" where
  "retry_loop env url filename hour attempt lastErr s =
     (if attempt \<le> maxRetries then
        (case try_download (attempts env hour attempt) url filename s of
           Inl r \<Rightarrow> r
         | Inr (e, s1) \<Rightarrow>
             retry_loop env url filename hour (attempt + 1) (Some e)
               (if attempt < maxRetries then s1\<lparr>sleeps := sleeps s1 + 1\<rparr> else s1))
      else (Some (FailedAfter maxRetries lastErr), remove_file (filename @ ''.tmp'') s))"
  by pat_completeness auto
termination
  by (relation "measure (\<lambda>(env, url, filename, hour, attempt, lastErr, s). maxRetries + 1 - attempt)")
    auto

declare retry_loop.simps [simp del]

definition downloadWithRetry ::
  "download_env \<Rightarrow> string \<Rightarrow> string \<Rightarrow> string \<Rightarrow> fs_state \<Rightarrow> dl_error option \<times> fs_state" where
  "downloadWithRetry env date cycle hour s =
     (let filename = gfs_filename cycle hour;
          url = baseURL @ ''/gfs.'' @ date @ ''/'' @ cycle @ ''/atmos/'' @ filename
      in if (case stat s filename of None \<Rightarrow> False | Some sz \<Rightarrow> sz > min_size)
         then (None, s)
         else retry_loop env url filename hour 1 None s)"

text \<open>\<^verbatim>\<open>worker\<close>, for the jobs in the order they are taken from the channel. The four workers
  of \<^verbatim>\<open>run\<close> take the jobs between them; every job reads and writes only the two files of
  its own hour, so the jobs are run one after the other here.\<close>

fun worker ::
  "download_env \<Rightarrow> string \<Rightarrow> string \<Rightarrow> string list \<Rightarrow> fs_state
     \<Rightarrow> dl_error option list \<times> fs_state" where
  "worker env date cycle [] s = ([], s)"
| "worker env date cycle (hour # jobs) s =
     (if cancelled s then ([Some ContextCanceled], s)
      else let (r, s1) = downloadWithRetry env date cycle hour s;
               (rs, s2) = worker env date cycle jobs s1
           in (r # rs, s2))"

text \<open>The two deferred calls of \<^verbatim>\<open>run\<close>: \<^verbatim>\<open>cancel()\<close>, then the removal of the staging
  directory if it is still there. The result of that \<^verbatim>\<open>os.RemoveAll\<close> is ignored by the
  source; the directory is the run's own and its removal is taken to succeed.\<close>

definition cleanup :: "fs_state \<Rightarrow> fs_state" where
  "cleanup s = s\<lparr>cancelled := True, staging := None\<rparr>"

definition initial_state :: "dir option \<Rightarrow> fs_state" where
  "initial_state pub =
     \<lparr>published = pub, staging = None, requests = [], sleeps = 0, cancelled = False\<rparr>"

definition run :: "download_env \<Rightarrow> dir option \<Rightarrow> dl_error option \<times> fs_state" where
  "run env pub =
     (let s0 = initial_state pub
      in if \<not> mkdir_parent_ok env then (Some MkdirParentFailed, s0)
         else if \<not> mkdir_temp_ok env then (Some MkdirTempFailed, s0)
         else let s1 = s0\<lparr>staging := Some Map.empty\<rparr>;
                  (date, cycle) = getCurrentCycle env;
                  (results, s2) = worker env date cycle forecastHours s1;
                  failed = length (filter (\<lambda>err. err \<noteq> None) results)
              in if failed > 0 then (Some (DownloadsFailed failed), cleanup s2)
                 else if published s2 \<noteq> None \<and> \<not> remove_old_ok env
                 then (Some RemoveOldFailed, cleanup (s2\<lparr>published := remove_old_rest env\<rparr>))
                 else if \<not> move_ok env
                 then (Some MoveFailed, cleanup (s2\<lparr>published := None\<rparr>))
                 else (None, cleanup (s2\<lparr>published := staging s2, staging := None\<rparr>)))"

section \<open>Auxiliary predicates and example environments\<close>

text \<open>The invariant of \<^verbatim>\<open>timestampMap\<close>: one entry per key, and every entry filed under its
  own timestamp.\<close>

definition keyed :: "(int \<times> ForecastOutput) list \<Rightarrow> bool" where
  "keyed m = (distinct (map fst m) \<and> list_all (\<lambda>(k, v). k = ForecastOutput.Timestamp v) m)"

text \<open>Whether the worker of a file adds a sample.\<close>

definition processed_ok :: "ingest_env \<Rightarrow> real \<Rightarrow> real \<Rightarrow> string \<Rightarrow> bool" where
  "processed_ok env lon lat f =
     (case processGFSFile (ParseFloat env) (now_date env f) (run_decoder env f lon lat) f of
        Inr (Inr data) \<Rightarrow> True
      | _ \<Rightarrow> False)"

text \<open>A fragment of \<^verbatim>\<open>strconv.ParseFloat\<close>, enough for the examples, and awk's output for a
  list of values, one per line.\<close>

definition example_ParseFloat :: "string \<Rightarrow> real option" where
  "example_ParseFloat =
     map_of [(''5.0'', 5), (''7.0'', 7), (''293.15'', 293.15), (''280.15'', 280.15),
             (''290.15'', 290.15), (''0'', 0), (''-1'', - 1)]"

definition lines_of :: "string list \<Rightarrow> string" where
  "lines_of ls = concat (map (\<lambda>l. l @ [CHR 0x0A]) ls)"

text \<open>Two files of different cycles that resolve to the same time, 06:00 of the day the
  clock shows: offset 6 of the 00 cycle and offset 0 of the 06 cycle. The worker of the
  first file finishes first.\<close>

definition file_a :: string where
  "file_a = ''gfs_data/gfs.t00z.pgrb2.0p25.f006''"

definition file_b :: string where
  "file_b = ''gfs_data/gfs.t06z.pgrb2.0p25.f000''"

definition collision_env :: ingest_env where
  "collision_env =
     \<lparr>wgrib2_installed = True,
      glob = Some [file_a, file_b],
      finish_time = (\<lambda>f. if f = file_a then 0 else 1),
      now_date = (\<lambda>f. 20000),
      run_decoder = (\<lambda>f lon lat.
         if f = file_a then Completed (lines_of [''5.0'', ''290.15'', ''0'', ''-1''])
         else Completed (lines_of [''7.0'', ''280.15'', ''0'', ''-1''])),
      ParseFloat = example_ParseFloat\<rparr>"

text \<open>Four files of the 00 cycle. The decoder fails on the last one; the workers finish
  in the reverse of the order of the files.\<close>

definition file_0 :: string where
  "file_0 = ''gfs_data/gfs.t00z.pgrb2.0p25.f000''"

definition file_1 :: string where
  "file_1 = ''gfs_data/gfs.t00z.pgrb2.0p25.f001''"

definition file_2 :: string where
  "file_2 = ''gfs_data/gfs.t00z.pgrb2.0p25.f002''"

definition file_3 :: string where
  "file_3 = ''gfs_data/gfs.t00z.pgrb2.0p25.f003''"

definition example_env :: ingest_env where
  "example_env =
     \<lparr>wgrib2_installed = True,
      glob = Some [file_0, file_1, file_2, file_3],
      finish_time = (\<lambda>f. if f = file_0 then 3 else if f = file_1 then 2
                          else if f = file_2 then 1 else 0),
      now_date = (\<lambda>f. 20000),
      run_decoder = (\<lambda>f lon lat.
         if f = file_3 then WaitFailed (lines_of [''5.0'', ''293.15'', ''0'', ''-1''])
         else Completed (lines_of [''5.0'', ''293.15'', ''0'', ''-1''])),
      ParseFloat = example_ParseFloat\<rparr>"

text \<open>The sample and the output point of the examples: wind from the north at 1 m/s.\<close>

definition sample :: "Time \<Rightarrow> real \<Rightarrow> real \<Rightarrow> ForecastData" where
  "sample ts gust temp =
     \<lparr>ForecastData.Timestamp = ts, Temp2m = temp, UWind10m = 0, VWind10m = - 1,
      WindGust = gust, WindSpeed = 0, WindDir = 0\<rparr>"

definition point :: "int \<Rightarrow> real \<Rightarrow> real \<Rightarrow> ForecastOutput" where
  "point minute tempC gust =
     \<lparr>ForecastOutput.Timestamp = minute, TempC = tempC, WindKt = 1.94384,
      GustKt = gust * 1.94384, Direction = ''N''\<rparr>"

text \<open>
  For the downloader: an attempt fails when the request cannot be built, the file cannot
  be created, the request fails, the status is not 200, the copy breaks off, or the file
  is not larger than the minimum. \<open>job_frame\<close> is what a job for the file \<open>filename\<close> leaves
  alone: the published directory, the cancellation flag, whether the staging directory
  exists, and every file of it other than \<open>filename\<close> and its \<^verbatim>\<open>.tmp\<close>.
\<close>

definition attempt_fails :: "attempt_env \<Rightarrow> bool" where
  "attempt_fails a =
     (\<not> req_ok a \<or> \<not> create_ok a \<or>
      (case http a of
         DoFailed \<Rightarrow> True
       | Response code n copied \<Rightarrow> code \<noteq> 200 \<or> \<not> copied \<or> n \<le> min_size))"

definition body_size :: "attempt_env \<Rightarrow> nat" where
  "body_size a = (case http a of DoFailed \<Rightarrow> 0 | Response code n copied \<Rightarrow> n)"

definition job_frame :: "string \<Rightarrow> fs_state \<Rightarrow> fs_state \<Rightarrow> bool" where
  "job_frame filename s s' =
     (published s' = published s \<and> cancelled s' = cancelled s \<and>
      (case staging s of
         None \<Rightarrow> staging s' = None
       | Some d \<Rightarrow>
           (case staging s' of
              None \<Rightarrow> False
            | Some d' \<Rightarrow> (\<forall>k. k = filename \<or> k = filename @ ''.tmp'' \<or> d' k = d k))))"

text \<open>Example environments of the downloader: every attempt succeeds with a body of
  2 MiB, but for what each example changes.\<close>

definition good_attempt :: attempt_env where
  "good_attempt = \<lparr>req_ok = True, create_ok = True, http = Response 200 2097152 True,
                    rename_ok = True\<rparr>"

definition example_download_env :: "(string \<Rightarrow> nat \<Rightarrow> attempt_env) \<Rightarrow> download_env" where
  "example_download_env as =
     \<lparr>mkdir_parent_ok = True, mkdir_temp_ok = True, clock_hour = 7,
      date_today = ''20240501'', date_yesterday = ''20240430'', attempts = as,
      remove_old_ok = True, remove_old_rest = None, move_ok = True\<rparr>"

text \<open>The request for hour 013 fails on every attempt.\<close>

definition one_failure_env :: download_env where
  "one_failure_env =
     example_download_env
       (\<lambda>hour attempt. if hour = ''013'' then good_attempt\<lparr>http := DoFailed\<rparr> else good_attempt)"

text \<open>\<^verbatim>\<open>os.Create\<close> fails on the first attempt of every hour.\<close>

definition create_fails_once_env :: download_env where
  "create_fails_once_env =
     example_download_env
       (\<lambda>hour attempt. if attempt = 1 then good_attempt\<lparr>create_ok := False\<rparr> else good_attempt)"

text \<open>No request succeeds.\<close>

definition offline_env :: download_env where
  "offline_env = example_download_env (\<lambda>hour attempt. good_attempt\<lparr>http := DoFailed\<rparr>)"

text \<open>A published directory with a complete file for hour 000 of the 00 cycle, and the
  state of a run with that directory published and a fresh staging directory.\<close>

definition old_dir :: dir where
  "old_dir = [gfs_filename ''00'' ''000'' \<mapsto> 2097152]"

definition fresh_state :: fs_state where
  "fresh_state = (initial_state (Some old_dir))\<lparr>staging := Some Map.empty\<rparr>"

section \<open>Properties of the filename codec\<close>

lemma Split_sep_free: "c \<notin> set a \<Longrightarrow> strings_Split a c = [a]"
  by (induction a) auto

lemma Split_append_sep:
  "c \<notin> set a \<Longrightarrow> strings_Split (a @ c # b) c = a # strings_Split b c"
  by (induction a) (auto split: list.splits)

lemma Split_step:
  "c \<notin> set a \<Longrightarrow> strings_Split b c = ps \<Longrightarrow> strings_Split (a @ c # b) c = a # ps"
  by (simp add: Split_append_sep)

lemma Split_gfs_filename:
  assumes c: "CHR ''.'' \<notin> set c" and h: "CHR ''.'' \<notin> set h"
  shows "strings_Split (gfs_filename c h) CHR ''.'' =
           [''gfs'', CHR ''t'' # c @ ''z'', ''pgrb2'', ''0p25'', CHR ''f'' # h]"
proof -
  have 5: "strings_Split (CHR ''f'' # h) CHR ''.'' = [CHR ''f'' # h]"
    by (rule Split_sep_free) (use h in simp)
  have 4: "strings_Split (''0p25'' @ CHR ''.'' # CHR ''f'' # h) CHR ''.'' =
             [''0p25'', CHR ''f'' # h]"
    by (rule Split_step[OF _ 5]) simp
  have 3: "strings_Split (''pgrb2'' @ CHR ''.'' # ''0p25'' @ CHR ''.'' # CHR ''f'' # h) CHR ''.''
             = [''pgrb2'', ''0p25'', CHR ''f'' # h]"
    by (rule Split_step[OF _ 4]) simp
  have 2: "strings_Split ((CHR ''t'' # c @ ''z'') @ CHR ''.'' # ''pgrb2'' @ CHR ''.'' #
               ''0p25'' @ CHR ''.'' # CHR ''f'' # h) CHR ''.''
             = [CHR ''t'' # c @ ''z'', ''pgrb2'', ''0p25'', CHR ''f'' # h]"
    by (rule Split_step[OF _ 3]) (use c in simp)
  have 1: "strings_Split (''gfs'' @ CHR ''.'' # (CHR ''t'' # c @ ''z'') @ CHR ''.'' #
               ''pgrb2'' @ CHR ''.'' # ''0p25'' @ CHR ''.'' # CHR ''f'' # h) CHR ''.''
             = [''gfs'', CHR ''t'' # c @ ''z'', ''pgrb2'', ''0p25'', CHR ''f'' # h]"
    by (rule Split_step[OF _ 2]) simp
  have "gfs_filename c h = ''gfs'' @ CHR ''.'' # (CHR ''t'' # c @ ''z'') @ CHR ''.'' #
          ''pgrb2'' @ CHR ''.'' # ''0p25'' @ CHR ''.'' # CHR ''f'' # h"
    by (simp add: gfs_filename_def resolution_def)
  then show ?thesis by (simp only: 1)
qed

lemma Base_plain:
  assumes "CHR ''/'' \<notin> set p" and "p \<noteq> []"
  shows "filepath_Base p = p"
proof -
  have 1: "dropWhile (\<lambda>c. c = CHR ''/'') (rev p) = rev p"
    using assms(1) by (cases "rev p") auto
  have 2: "takeWhile (\<lambda>c. c \<noteq> CHR ''/'') (rev p) = rev p"
    using assms(1) by (auto intro: takeWhile_eq_all_conv[THEN iffD2])
  show ?thesis using assms(2)
    by (simp add: filepath_Base_def strip_trailing_slashes_def last_element_def 1 2)
qed

lemma Base_gfs_filename:
  assumes "CHR ''/'' \<notin> set c" and "CHR ''/'' \<notin> set h"
  shows "filepath_Base (gfs_filename c h) = gfs_filename c h"
  using assms by (intro Base_plain) (auto simp: gfs_filename_def resolution_def)

lemma getForecastHour_gfs_filename:
  assumes c: "CHR ''.'' \<notin> set c" "CHR ''/'' \<notin> set c"
    and h: "CHR ''.'' \<notin> set h" "CHR ''/'' \<notin> set h"
  shows "getForecastHour (gfs_filename c h) = Inr (fst (strconv_Atoi h))"
  by (simp add: getForecastHour_def Base_gfs_filename[OF c(2) h(2)]
      Split_gfs_filename[OF c(1) h(1)] index_def strings_TrimPrefix_def)

lemma getForecastHour_no_panic: "\<exists>h. getForecastHour f = Inr h"
  by (simp add: getForecastHour_def index_def Let_def)

lemma upt_25:
  "[0..<25] = [0, 1, 2, 3, 4, 5, 6, 7, 8, 9, 10, 11, 12, 13, 14, 15, 16, 17, 18, 19, 20,
               21, 22, 23, 24 :: nat]"
  by (simp add: upt_conv_Cons)

lemma Atoi_forecastHours:
  "map (\<lambda>h. fst (strconv_Atoi h)) forecastHours = map int [0..<25]"
  unfolding upt_25
  by (simp add: forecastHours_def strconv_Atoi_def strconv_ParseUint_def is_digit_def
      digit_val_def maxUint64_def)

lemma length_forecastHours: "length forecastHours = 25"
  by (simp add: forecastHours_def)

lemma Atoi_forecastHours_nth:
  assumes "n < 25"
  shows "fst (strconv_Atoi (forecastHours ! n)) = int n"
proof -
  have "map (\<lambda>h. fst (strconv_Atoi h)) forecastHours ! n = map int [0..<25] ! n"
    by (simp only: Atoi_forecastHours)
  then show ?thesis using assms length_forecastHours by simp
qed

lemma forecastHours_plain:
  "h \<in> set forecastHours \<Longrightarrow> CHR ''.'' \<notin> set h \<and> CHR ''/'' \<notin> set h \<and> length h = 3"
  by (auto simp: forecastHours_def)

text \<open>
  C4, as amended. For each of the four cycle hours and each of the 25 offsets, decoding
  the name the downloader composes gives the offset back. \<^verbatim>\<open>getForecastHour\<close> returns for
  every string (the indexed read never panics), and a name whose base has fewer than
  five dot-separated parts gives \<open>-1\<close>. Nothing is said of other malformed names.
\<close>

theorem codec_roundtrip_and_total:
  "(\<forall>c \<in> set cycleHours. \<forall>n < 25.
       getForecastHour (gfs_filename c (forecastHours ! n)) = Inr (int n))
   \<and> (\<forall>f. \<exists>h. getForecastHour f = Inr h)
   \<and> (\<forall>f. length (strings_Split (filepath_Base f) CHR ''.'') < 5
          \<longrightarrow> getForecastHour f = Inr (- 1))"
proof (intro conjI ballI allI impI)
  fix c n assume c: "c \<in> set cycleHours" and n: "n < (25::nat)"
  have "forecastHours ! n \<in> set forecastHours"
    using n length_forecastHours by (intro nth_mem) simp
  then have h: "CHR ''.'' \<notin> set (forecastHours ! n)" "CHR ''/'' \<notin> set (forecastHours ! n)"
    using forecastHours_plain by auto
  from c have cc: "CHR ''.'' \<notin> set c" "CHR ''/'' \<notin> set c"
    by (auto simp: cycleHours_def)
  show "getForecastHour (gfs_filename c (forecastHours ! n)) = Inr (int n)"
    by (simp add: getForecastHour_gfs_filename[OF cc h] Atoi_forecastHours_nth[OF n])
next
  fix f show "\<exists>h. getForecastHour f = Inr h"
    by (rule getForecastHour_no_panic)
next
  fix f assume "length (strings_Split (filepath_Base f) CHR ''.'') < 5"
  then show "getForecastHour f = Inr (- 1)"
    by (simp add: getForecastHour_def)
qed

theorem codec_roundtrip_and_total_witness:
  "getForecastHour (gfs_filename ''06'' (forecastHours ! 17)) = Inr 17
   \<and> getForecastHour ''a.b'' = Inr (- 1)"
proof -
  have 1: "''06'' \<in> set cycleHours" by (simp add: cycleHours_def)
  have 2: "length (strings_Split (filepath_Base ''a.b'') CHR ''.'') < 5"
    by (simp add: filepath_Base_def strip_trailing_slashes_def last_element_def)
  from codec_roundtrip_and_total 1 2 show ?thesis by fastforce
qed

text \<open>The claim's second half fails: a name of five parts whose last part is no number
  decodes to 0, which is the offset of the analysis file and not negative.\<close>

theorem codec_malformed_counterexample:
  "getForecastHour ''gfs.t00z.pgrb2.0p25.fxyz'' = Inr 0"
  by (simp add: getForecastHour_def filepath_Base_def last_element_def
      strip_trailing_slashes_def index_def strconv_Atoi_def strconv_ParseUint_def
      strings_TrimPrefix_def is_digit_def)

section \<open>Properties of the wind direction\<close>

lemma add_turns_nonneg: "0 \<le> d \<Longrightarrow> add_turns d = d"
  by (subst add_turns.simps) simp

lemma drop_turns_small: "d < 360 \<Longrightarrow> drop_turns d = d"
  by (subst drop_turns.simps) simp

lemma add_turns_eq: "add_turns d = (if d < 0 then d - 360 * of_int \<lfloor>d / 360\<rfloor> else d)"
proof (induction d rule: add_turns.induct)
  case (1 d)
  show ?case
  proof (cases "d < 0")
    case False
    then show ?thesis by (simp add: add_turns_nonneg)
  next
    case True
    have fl: "\<lfloor>(d + 360) / 360\<rfloor> = \<lfloor>d / 360\<rfloor> + 1"
    proof -
      have "(d + 360) / 360 = d / 360 + 1" by (simp add: field_simps)
      then have "\<lfloor>(d + 360) / 360\<rfloor> = \<lfloor>d / 360 + 1\<rfloor>" by (rule arg_cong)
      then show ?thesis by simp
    qed
    have step: "add_turns d = add_turns (d + 360)"
      using True by (subst add_turns.simps) simp
    show ?thesis
    proof (cases "d + 360 < 0")
      case True
      with 1 \<open>d < 0\<close> have "add_turns (d + 360) = (d + 360) - 360 * of_int \<lfloor>(d + 360) / 360\<rfloor>"
        by simp
      then show ?thesis using step fl \<open>d < 0\<close> by (simp add: algebra_simps)
    next
      case False
      then have "add_turns (d + 360) = d + 360" by (simp add: add_turns_nonneg)
      moreover have "\<lfloor>d / 360\<rfloor> = - 1"
        using False \<open>d < 0\<close> by (intro floor_unique) (simp_all add: field_simps)
      ultimately show ?thesis using step \<open>d < 0\<close> by simp
    qed
  qed
qed

lemma drop_turns_eq: "drop_turns d = (if d \<ge> 360 then d - 360 * of_int \<lfloor>d / 360\<rfloor> else d)"
proof (induction d rule: drop_turns.induct)
  case (1 d)
  show ?case
  proof (cases "d \<ge> 360")
    case False
    then show ?thesis by (simp add: drop_turns_small)
  next
    case True
    have fl: "\<lfloor>(d - 360) / 360\<rfloor> = \<lfloor>d / 360\<rfloor> - 1"
    proof -
      have "(d - 360) / 360 = d / 360 - 1" by (simp add: field_simps)
      then have "\<lfloor>(d - 360) / 360\<rfloor> = \<lfloor>d / 360 - 1\<rfloor>" by (rule arg_cong)
      then show ?thesis by simp
    qed
    have step: "drop_turns d = drop_turns (d - 360)"
      using True by (subst drop_turns.simps) simp
    show ?thesis
    proof (cases "d - 360 \<ge> 360")
      case True
      with 1 \<open>d \<ge> 360\<close> have "drop_turns (d - 360) = (d - 360) - 360 * of_int \<lfloor>(d - 360) / 360\<rfloor>"
        by simp
      then show ?thesis using step fl \<open>d \<ge> 360\<close> by (simp add: algebra_simps)
    next
      case False
      then have "drop_turns (d - 360) = d - 360" by (simp add: drop_turns_small)
      moreover have "\<lfloor>d / 360\<rfloor> = 1"
        using False \<open>d \<ge> 360\<close> by (intro floor_unique) (simp_all add: field_simps)
      ultimately show ?thesis using step \<open>d \<ge> 360\<close> by simp
    qed
  qed
qed

lemma frac_range:
  fixes d :: real
  shows "0 \<le> d - 360 * of_int \<lfloor>d / 360\<rfloor>" and "d - 360 * of_int \<lfloor>d / 360\<rfloor> < 360"
proof -
  have "of_int \<lfloor>d / 360\<rfloor> \<le> d / 360" by (rule of_int_floor_le)
  then show "0 \<le> d - 360 * of_int \<lfloor>d / 360\<rfloor>" by (simp add: field_simps)
  have "d / 360 < of_int \<lfloor>d / 360\<rfloor> + 1" by linarith
  then show "d - 360 * of_int \<lfloor>d / 360\<rfloor> < 360" by (simp add: field_simps)
qed

lemma normalised: "drop_turns (add_turns d) = d - 360 * of_int \<lfloor>d / 360\<rfloor>"
proof (cases "d < 0")
  case True
  then have "add_turns d = d - 360 * of_int \<lfloor>d / 360\<rfloor>" by (simp add: add_turns_eq)
  then show ?thesis using frac_range(2)[of d] by (simp add: drop_turns_small)
next
  case False
  then have a: "add_turns d = d" by (simp add: add_turns_nonneg)
  show ?thesis
  proof (cases "d \<ge> 360")
    case True
    then show ?thesis by (simp add: a drop_turns_eq)
  next
    case False
    then have "\<lfloor>d / 360\<rfloor> = 0" using \<open>\<not> d < 0\<close> by (intro floor_unique) simp_all
    then show ?thesis using False by (simp add: a drop_turns_small)
  qed
qed


lemma cardinal_index_range: "0 \<le> cardinal_index d \<and> cardinal_index d < 16"
proof -
  let ?n = "drop_turns (add_turns d)"
  let ?x = "(?n + 11.25) / 22.5"
  have n: "0 \<le> ?n" "?n < 360" using frac_range[of d] by (simp_all add: normalised)
  then have x: "0 \<le> ?x" by simp
  then have "int_of_float ?x = \<lfloor>?x\<rfloor>" by (simp add: int_of_float_def)
  moreover have "0 \<le> \<lfloor>?x\<rfloor>" using x by simp
  ultimately have "0 \<le> int_of_float ?x" by simp
  then show ?thesis
    unfolding cardinal_index_def
    using smod_int_compares(1)[of "int_of_float ?x" 16] smod_int_compares(2)[of "int_of_float ?x" 16]
    by simp
qed


lemma degreesToCardinal_135: "degreesToCardinal 135 = Inr ''SE''"
proof -
  have "drop_turns (add_turns 135) = 135" by (simp add: add_turns_nonneg drop_turns_small)
  then have "cardinal_index 135 = 6" by (simp add: cardinal_index_def int_of_float_def)
  then show ?thesis by (simp add: degreesToCardinal_def index_int_def directions_def)
qed

section \<open>Properties of the aggregation\<close>

lemma degreesToCardinal_Inr:
  "degreesToCardinal d = Inr (directions ! nat (cardinal_index d))"
  using cardinal_index_range[of d]
  by (simp add: degreesToCardinal_def index_int_def directions_def)

lemma toOutput_Inr: "\<exists>out. toOutput f = Inr out \<and> ForecastOutput.Timestamp out = ForecastData.Timestamp f div Minute"
  by (simp add: toOutput_def Let_def degreesToCardinal_Inr)

lemma keyed_update:
  "keyed m \<Longrightarrow> keyed (AList.update (ForecastOutput.Timestamp out) out m)"
  by (induction m) (auto simp: keyed_def AList.update.simps list_all_iff image_iff dom_update)

lemma merge_forecasts_Inr:
  "\<exists>m'. merge_forecasts fs m = Inr m'"
proof (induction fs arbitrary: m)
  case Nil then show ?case by simp
next
  case (Cons f fs)
  obtain out where "toOutput f = Inr out" using toOutput_Inr by blast
  then show ?case using Cons by simp
qed

lemma merge_forecasts_keyed:
  "keyed m \<Longrightarrow> merge_forecasts fs m = Inr m' \<Longrightarrow> keyed m'"
proof (induction fs arbitrary: m)
  case Nil then show ?case by simp
next
  case (Cons f fs)
  obtain out where o: "toOutput f = Inr out" using toOutput_Inr by blast
  with Cons.prems have "merge_forecasts fs (AList.update (ForecastOutput.Timestamp out) out m) = Inr m'"
    by simp
  then show ?case using Cons.IH keyed_update[OF Cons.prems(1)] by blast
qed

lemma merge_forecasts_length:
  "merge_forecasts fs m = Inr m' \<Longrightarrow> length m' \<le> length m + length fs"
proof (induction fs arbitrary: m)
  case Nil then show ?case by simp
next
  case (Cons f fs)
  obtain out where o: "toOutput f = Inr out" using toOutput_Inr by blast
  with Cons.prems have "merge_forecasts fs (AList.update (ForecastOutput.Timestamp out) out m) = Inr m'"
    by simp
  from Cons.IH[OF this] have "length m' \<le> length (AList.update (ForecastOutput.Timestamp out) out m) + length fs" .
  moreover have "length (AList.update (ForecastOutput.Timestamp out) out m) \<le> Suc (length m)"
    by (induction m) (auto simp: AList.update.simps)
  ultimately show ?case by simp
qed

lemma keyed_strictly_sorted:
  assumes "keyed m"
  shows "sorted_wrt (<) (map ForecastOutput.Timestamp (sort_key ForecastOutput.Timestamp (map snd m)))"
proof -
  let ?T = "ForecastOutput.Timestamp"
  have eq: "map (?T \<circ> snd) m = map fst m"
    using assms by (induction m) (auto simp: keyed_def)
  have "distinct (map fst m)" using assms by (simp add: keyed_def)
  then have "distinct (map ?T (map snd m))" by (simp add: eq)
  then have "distinct (map snd m) \<and> inj_on ?T (set (map snd m))"
    by (simp only: distinct_map)
  then have d: "distinct (map ?T (sort_key ?T (map snd m)))"
    by (simp only: distinct_map distinct_sort set_sort)
  have "sorted (map ?T (sort_key ?T (map snd m)))"
    by (rule sorted_sort_key)
  with d show ?thesis by (simp add: strict_sorted_iff)
qed

lemma aggregate_Inr: "\<exists>out. aggregate fs = Inr out"
  using merge_forecasts_Inr[of fs "[]"] by (auto simp: aggregate_def)

lemma aggregate_sorted:
  assumes "aggregate fs = Inr out"
  shows "sorted_wrt (<) (map ForecastOutput.Timestamp out)"
proof -
  obtain m where m: "merge_forecasts fs [] = Inr m" using merge_forecasts_Inr by blast
  have "keyed []" by (simp add: keyed_def)
  then have "keyed m" using m by (rule merge_forecasts_keyed)
  moreover have "out = sort_key ForecastOutput.Timestamp (map snd m)"
    using assms m by (simp add: aggregate_def)
  ultimately show ?thesis using keyed_strictly_sorted by simp
qed

lemma aggregate_length:
  assumes "aggregate fs = Inr out" shows "length out \<le> length fs"
proof -
  obtain m where m: "merge_forecasts fs [] = Inr m" using merge_forecasts_Inr by blast
  then have "out = sort_key ForecastOutput.Timestamp (map snd m)"
    using assms by (simp add: aggregate_def)
  then show ?thesis using merge_forecasts_length[OF m] by simp
qed

lemma forecast_hours_Inr: "\<exists>hs. forecast_hours fs = Inr hs \<and> map snd hs = fs"
proof (induction fs)
  case Nil then show ?case by simp
next
  case (Cons f fs)
  obtain h where "getForecastHour f = Inr h" using getForecastHour_no_panic by blast
  then show ?case using Cons by auto
qed

lemma sort_files_Inr: "\<exists>sorted. sort_files fs = Inr sorted \<and> mset sorted = mset fs"
proof -
  obtain hs where hs: "forecast_hours fs = Inr hs" "map snd hs = fs"
    using forecast_hours_Inr by blast
  have "mset (map snd (sort_key fst hs)) = mset (map snd hs)" by simp
  then show ?thesis using hs by (simp add: sort_files_def)
qed

lemma resolve_timestamp_no_panic: "\<exists>r. resolve_timestamp today file = Inr r"
proof -
  obtain h where "getForecastHour file = Inr h" using getForecastHour_no_panic by blast
  then show ?thesis
    by (auto simp: resolve_timestamp_def Let_def index_def split: option.splits)
qed

lemma parse_values_no_panic: "\<exists>r. parse_values pf ts out = Inr r"
  by (auto simp: parse_values_def Let_def index_def split: option.splits)

lemma processGFSFile_no_panic: "\<exists>r. processGFSFile pf today res file = Inr r"
proof -
  obtain r where r: "resolve_timestamp today file = Inr r" using resolve_timestamp_no_panic by blast
  show ?thesis
  proof (cases r)
    case (Inl e) then show ?thesis using r by (simp add: processGFSFile_def)
  next
    case (Inr ts)
    then show ?thesis using r parse_values_no_panic
      by (cases res) (auto simp: processGFSFile_def)
  qed
qed

lemma collect_Inr: "\<exists>ds. collect env lon lat fs = Inr ds \<and> length ds \<le> length fs"
proof (induction fs)
  case Nil then show ?case by simp
next
  case (Cons f fs)
  obtain r where r: "processGFSFile (ParseFloat env) (now_date env f) (run_decoder env f lon lat) f = Inr r"
    using processGFSFile_no_panic by blast
  then show ?case using Cons by (cases r) auto
qed

lemma Ingest_cases:
  "Ingest env lon lat = Fatal \<and> (\<not> wgrib2_installed env \<or> glob env = None)
   \<or> (\<exists>files out. wgrib2_installed env \<and> glob env = Some files
        \<and> Ingest env lon lat = Returned (out, None)
        \<and> length out \<le> length files
        \<and> sorted_wrt (<) (map ForecastOutput.Timestamp out))"
proof (cases "wgrib2_installed env \<and> glob env \<noteq> None")
  case False
  then show ?thesis by (auto simp: Ingest_def)
next
  case True
  then obtain files where g: "wgrib2_installed env" "glob env = Some files" by auto
  obtain sorted where s: "sort_files files = Inr sorted" "mset sorted = mset files"
    using sort_files_Inr by blast
  obtain ds where d: "collect env lon lat (sort_key (finish_time env) sorted) = Inr ds"
      "length ds \<le> length (sort_key (finish_time env) sorted)"
    using collect_Inr by blast
  obtain out where o: "aggregate (sort_key ForecastData.Timestamp ds) = Inr out"
    using aggregate_Inr by blast
  have "length sorted = length files" using s(2) by (metis size_mset)
  then have "length out \<le> length files"
    using aggregate_length[OF o] d(2) by simp
  moreover have "Ingest env lon lat = Returned (out, None)"
    using g s d o by (simp add: Ingest_def)
  ultimately show ?thesis using g aggregate_sorted[OF o] by auto
qed


section \<open>The examples, evaluated\<close>

lemmas codec_defs = getForecastHour_def filepath_Base_def last_element_def
      strip_trailing_slashes_def index_def strconv_Atoi_def strconv_ParseUint_def
      strings_TrimPrefix_def strings_TrimSuffix_def suffix_to_prefix is_digit_def
      digit_val_def maxUint64_def

lemma hours_duration_small: "hours_duration 0 = 0" "hours_duration 1 = Hour"
  "hours_duration 2 = 2 * Hour" "hours_duration 3 = 3 * Hour" "hours_duration 6 = 6 * Hour"
  by (simp_all add: hours_duration_def Hour_def Minute_def)

lemma getForecastHour_examples:
  "getForecastHour file_a = Inr 6" "getForecastHour file_b = Inr 0"
  "getForecastHour file_0 = Inr 0" "getForecastHour file_1 = Inr 1"
  "getForecastHour file_2 = Inr 2" "getForecastHour file_3 = Inr 3"
  by (simp_all add: file_a_def file_b_def file_0_def file_1_def file_2_def file_3_def codec_defs)

lemma resolve_timestamp_examples:
  "resolve_timestamp d file_a = Inr (Inr (d * Day + 6 * Hour))"
  "resolve_timestamp d file_b = Inr (Inr (d * Day + 6 * Hour))"
  "resolve_timestamp d file_0 = Inr (Inr (d * Day))"
  "resolve_timestamp d file_1 = Inr (Inr (d * Day + Hour))"
  "resolve_timestamp d file_2 = Inr (Inr (d * Day + 2 * Hour))"
  "resolve_timestamp d file_3 = Inr (Inr (d * Day + 3 * Hour))"
  unfolding resolve_timestamp_def getForecastHour_examples
  by (simp_all add: file_a_def file_b_def file_0_def file_1_def file_2_def file_3_def
      codec_defs time_Parse_def getnum_def hours_duration_small)

lemma TrimSpace_lines_of:
  "strings_TrimSpace (lines_of [''5.0'', ''290.15'', ''0'', ''-1'']) =
     ''5.0'' @ [CHR 0x0A] @ ''290.15'' @ [CHR 0x0A] @ ''0'' @ [CHR 0x0A] @ ''-1''"
  "strings_TrimSpace (lines_of [''7.0'', ''280.15'', ''0'', ''-1'']) =
     ''7.0'' @ [CHR 0x0A] @ ''280.15'' @ [CHR 0x0A] @ ''0'' @ [CHR 0x0A] @ ''-1''"
  "strings_TrimSpace (lines_of [''5.0'', ''293.15'', ''0'', ''-1'']) =
     ''5.0'' @ [CHR 0x0A] @ ''293.15'' @ [CHR 0x0A] @ ''0'' @ [CHR 0x0A] @ ''-1''"
  by (simp_all add: strings_TrimSpace_def lines_of_def trim_leading.simps space_seqs_def)

lemma parse_values_examples:
  "parse_values example_ParseFloat ts (lines_of [''5.0'', ''290.15'', ''0'', ''-1''])
     = Inr (Inr (sample ts 5 290.15))"
  "parse_values example_ParseFloat ts (lines_of [''7.0'', ''280.15'', ''0'', ''-1''])
     = Inr (Inr (sample ts 7 280.15))"
  "parse_values example_ParseFloat ts (lines_of [''5.0'', ''293.15'', ''0'', ''-1''])
     = Inr (Inr (sample ts 5 293.15))"
  unfolding parse_values_def TrimSpace_lines_of
  by (simp_all add: index_def example_ParseFloat_def sample_def)

lemma degreesToCardinal_0: "degreesToCardinal 0 = Inr ''N''"
proof -
  have "drop_turns (add_turns 0) = 0" by (simp add: add_turns_nonneg drop_turns_small)
  then have "cardinal_index 0 = 0" by (simp add: cardinal_index_def int_of_float_def)
  then show ?thesis by (simp add: degreesToCardinal_def index_int_def directions_def)
qed

lemma toOutput_sample:
  "toOutput (sample ts gust temp) = Inr (point (ts div Minute) (temp - 273.15) gust)"
  by (simp add: toOutput_def sample_def point_def math_Atan2_def degreesToCardinal_0)

lemma minutes:
  "(d * Day + 6 * Hour) div Minute = d * 1440 + 360"
  "(d * Day) div Minute = d * 1440"
  "(d * Day + Hour) div Minute = d * 1440 + 60"
  "(d * Day + 2 * Hour) div Minute = d * 1440 + 120"
  by (simp_all add: Day_def Hour_def Minute_def)

lemma Ingest_collision:
  "Ingest collision_env lon lat = Returned ([point (20000 * 1440 + 360) 7 7], None)"
proof -
  have s: "sort_files [file_a, file_b] = Inr [file_b, file_a]"
    by (simp add: sort_files_def getForecastHour_examples)
  have ne: "file_b \<noteq> file_a" by (simp add: file_a_def file_b_def)
  have f: "sort_key (finish_time collision_env) [file_b, file_a] = [file_a, file_b]"
    using ne by (simp add: collision_env_def)
  have c: "collect collision_env lon lat [file_a, file_b]
             = Inr [sample (20000 * Day + 6 * Hour) 5 290.15, sample (20000 * Day + 6 * Hour) 7 280.15]"
    using ne by (simp add: collision_env_def processGFSFile_def resolve_timestamp_examples
        parse_values_examples)
  have t: "sort_key ForecastData.Timestamp [sample (20000 * Day + 6 * Hour) 5 290.15, sample (20000 * Day + 6 * Hour) 7 280.15]
      = [sample (20000 * Day + 6 * Hour) 5 290.15, sample (20000 * Day + 6 * Hour) 7 280.15]"
    by (simp add: sample_def)
  have a: "aggregate [sample (20000 * Day + 6 * Hour) 5 290.15, sample (20000 * Day + 6 * Hour) 7 280.15]
      = Inr [point (20000 * 1440 + 360) 7 7]"
    by (simp add: aggregate_def toOutput_sample minutes point_def)
  have g: "wgrib2_installed collision_env" "glob collision_env = Some [file_a, file_b]"
    by (simp_all add: collision_env_def)
  show ?thesis
    by (simp only: Ingest_def g s f c t a option.case sum.case simp_thms if_False if_True)
qed


lemma example_files_distinct:
  "file_0 \<noteq> file_1" "file_0 \<noteq> file_2" "file_0 \<noteq> file_3"
  "file_1 \<noteq> file_0" "file_1 \<noteq> file_2" "file_1 \<noteq> file_3"
  "file_2 \<noteq> file_0" "file_2 \<noteq> file_1" "file_2 \<noteq> file_3"
  "file_3 \<noteq> file_0" "file_3 \<noteq> file_1" "file_3 \<noteq> file_2"
  "file_a \<noteq> file_b" "file_b \<noteq> file_a"
  by (simp_all add: file_0_def file_1_def file_2_def file_3_def file_a_def file_b_def)

lemma Ingest_example:
  "Ingest example_env lon lat =
     Returned ([point 28800000 20 5, point 28800060 20 5, point 28800120 20 5], None)"
proof -
  let ?s0 = "sample (20000 * Day) 5 293.15"
  let ?s1 = "sample (20000 * Day + Hour) 5 293.15"
  let ?s2 = "sample (20000 * Day + 2 * Hour) 5 293.15"
  have g: "wgrib2_installed example_env"
    "glob example_env = Some [file_0, file_1, file_2, file_3]"
    by (simp_all add: example_env_def)
  have s: "sort_files [file_0, file_1, file_2, file_3] = Inr [file_0, file_1, file_2, file_3]"
    by (simp add: sort_files_def getForecastHour_examples)
  have f: "sort_key (finish_time example_env) [file_0, file_1, file_2, file_3]
             = [file_3, file_2, file_1, file_0]"
    by (simp add: example_env_def example_files_distinct)
  have c: "collect example_env lon lat [file_3, file_2, file_1, file_0] = Inr [?s2, ?s1, ?s0]"
    by (simp add: example_env_def example_files_distinct processGFSFile_def
        resolve_timestamp_examples parse_values_examples)
  have t: "sort_key ForecastData.Timestamp [?s2, ?s1, ?s0] = [?s0, ?s1, ?s2]"
    by (simp add: sample_def Day_def Hour_def Minute_def)
  have a: "aggregate [?s0, ?s1, ?s2]
             = Inr [point 28800000 20 5, point 28800060 20 5, point 28800120 20 5]"
    by (simp add: aggregate_def toOutput_sample minutes point_def)
  show ?thesis
    by (simp only: Ingest_def g s f c t a option.case sum.case simp_thms if_False if_True)
qed

section \<open>Properties of the engine\<close>

text \<open>
  C3. Whatever the coordinate, the files found, the clock, the decoder's answers and the
  order in which the workers finish: when \<^verbatim>\<open>Ingest\<close> returns, the timestamps of its output
  are strictly ascending, so no two points have the same minute.
\<close>

theorem output_strictly_sorted:
  assumes "Ingest env lon lat = Returned (output, err)"
  shows "sorted_wrt (<) (map ForecastOutput.Timestamp output)
         \<and> distinct (map ForecastOutput.Timestamp output)"
proof -
  from Ingest_cases[of env lon lat] assms
  have "sorted_wrt (<) (map ForecastOutput.Timestamp output)" by auto
  then show ?thesis by (simp add: strict_sorted_iff)
qed

theorem output_strictly_sorted_witness:
  "sorted_wrt (<) (map ForecastOutput.Timestamp
       [point 28800000 20 5, point 28800060 20 5, point 28800120 20 5])
   \<and> distinct (map ForecastOutput.Timestamp
       [point 28800000 20 5, point 28800060 20 5, point 28800120 20 5])"
  by (rule output_strictly_sorted[OF Ingest_example[of 0 0]])

lemma collect_length:
  "collect env lon lat fs = Inr ds \<Longrightarrow> length ds = length (filter (processed_ok env lon lat) fs)"
proof (induction fs arbitrary: ds)
  case Nil then show ?case by simp
next
  case (Cons f fs)
  obtain r where r: "processGFSFile (ParseFloat env) (now_date env f) (run_decoder env f lon lat) f = Inr r"
    using processGFSFile_no_panic by blast
  obtain ds' where ds': "collect env lon lat fs = Inr ds'" using collect_Inr by blast
  show ?case
  proof (cases r)
    case (Inl e)
    with r Cons ds' show ?thesis by (simp add: processed_ok_def)
  next
    case (Inr d)
    with r Cons ds' show ?thesis by (auto simp: processed_ok_def)
  qed
qed

lemma Ingest_length:
  assumes "wgrib2_installed env" "glob env = Some files"
  shows "\<exists>output. Ingest env lon lat = Returned (output, None)
           \<and> length output \<le> length (filter (processed_ok env lon lat) files)"
proof -
  obtain sorted where s: "sort_files files = Inr sorted" "mset sorted = mset files"
    using sort_files_Inr by blast
  let ?done = "sort_key (finish_time env) sorted"
  obtain ds where d: "collect env lon lat ?done = Inr ds" using collect_Inr by blast
  obtain out where o: "aggregate (sort_key ForecastData.Timestamp ds) = Inr out"
    using aggregate_Inr by blast
  have "mset ?done = mset files" using s(2) by simp
  then have "mset (filter (processed_ok env lon lat) ?done) = mset (filter (processed_ok env lon lat) files)"
    by (simp only: mset_filter)
  then have "length (filter (processed_ok env lon lat) ?done) = length (filter (processed_ok env lon lat) files)"
    by (metis size_mset)
  then have "length out \<le> length (filter (processed_ok env lon lat) files)"
    using aggregate_length[OF o] collect_length[OF d] by simp
  moreover have "Ingest env lon lat = Returned (out, None)"
    using assms s d o by (simp add: Ingest_def)
  ultimately show ?thesis by blast
qed

text \<open>
  C10. When \<^verbatim>\<open>Ingest\<close> returns, its error is nil, so the handler never answers with the
  status 500. When \<^verbatim>\<open>wgrib2\<close> is found and the glob succeeds, \<^verbatim>\<open>Ingest\<close> does return, and its
  output has at most one point per file whose processing succeeded: a file that fails
  only makes the output shorter.
\<close>

theorem ingest_error_always_nil:
  "(\<forall>output err. Ingest env lon lat = Returned (output, err) \<longrightarrow> err = None)
   \<and> handler env lonString latString \<noteq> Returned StatusInternalServerError
   \<and> (\<forall>files. wgrib2_installed env \<and> glob env = Some files \<longrightarrow>
        (\<exists>output. Ingest env lon lat = Returned (output, None)
           \<and> length output \<le> length (filter (processed_ok env lon lat) files)
           \<and> length (filter (processed_ok env lon lat) files) \<le> length files))"
proof (intro conjI allI impI)
  fix out err assume "Ingest env lon lat = Returned (out, err)"
  then show "err = None" using Ingest_cases[of env lon lat] by auto
next
  have "\<And>a b out e. Ingest env a b = Returned (out, e) \<Longrightarrow> e = None"
    using Ingest_cases by (metis outcome.distinct(3) outcome.inject prod.inject)
  then show "handler env lonString latString \<noteq> Returned StatusInternalServerError"
    by (auto simp: handler_def split: option.splits outcome.splits prod.splits)
next
  fix files assume "wgrib2_installed env \<and> glob env = Some files"
  then show "\<exists>output. Ingest env lon lat = Returned (output, None)
           \<and> length output \<le> length (filter (processed_ok env lon lat) files)
           \<and> length (filter (processed_ok env lon lat) files) \<le> length files"
    using Ingest_length[of env files lon lat] by auto
qed

theorem ingest_error_always_nil_witness:
  "wgrib2_installed example_env \<and> glob example_env = Some [file_0, file_1, file_2, file_3]
   \<and> (\<exists>output. Ingest example_env 0 0 = Returned (output, None)
         \<and> length output \<le> length (filter (processed_ok example_env 0 0) [file_0, file_1, file_2, file_3]))"
proof -
  have g: "wgrib2_installed example_env \<and> glob example_env = Some [file_0, file_1, file_2, file_3]"
    by (simp add: example_env_def)
  with ingest_error_always_nil[of example_env 0 0] show ?thesis by blast
qed

text \<open>
  C1 fails on the code. \<open>file_a\<close> (offset 6 of the 00 cycle) and \<open>file_b\<close> (offset 0 of the
  06 cycle) resolve to the same time. The files are sorted by offset, but the samples are
  appended in the order the workers finish, and the sort by timestamp leaves equal
  timestamps in that order. When the worker of \<open>file_a\<close> finishes first, the one point of
  the output carries the values of \<open>file_b\<close>, the file with the smaller offset.
\<close>

theorem collision_smaller_offset_wins:
  "getForecastHour file_a = Inr 6 \<and> getForecastHour file_b = Inr 0
   \<and> resolve_timestamp 20000 file_a = resolve_timestamp 20000 file_b
   \<and> processGFSFile example_ParseFloat 20000 (run_decoder collision_env file_a lon lat) file_a
        = Inr (Inr (sample (20000 * Day + 6 * Hour) 5 290.15))
   \<and> processGFSFile example_ParseFloat 20000 (run_decoder collision_env file_b lon lat) file_b
        = Inr (Inr (sample (20000 * Day + 6 * Hour) 7 280.15))
   \<and> Ingest collision_env lon lat =
        Returned ([\<lparr>ForecastOutput.Timestamp = 28800360, TempC = 280.15 - 273.15, WindKt = 1.94384,
                    GustKt = 7 * 1.94384, Direction = ''N''\<rparr>], None)"
proof -
  have 1: "processGFSFile example_ParseFloat 20000 (run_decoder collision_env file_a lon lat) file_a
        = Inr (Inr (sample (20000 * Day + 6 * Hour) 5 290.15))"
    by (simp add: processGFSFile_def collision_env_def resolve_timestamp_examples
        parse_values_examples)
  have 2: "processGFSFile example_ParseFloat 20000 (run_decoder collision_env file_b lon lat) file_b
        = Inr (Inr (sample (20000 * Day + 6 * Hour) 7 280.15))"
    by (simp add: processGFSFile_def collision_env_def resolve_timestamp_examples
        parse_values_examples example_files_distinct)
  have 3: "Ingest collision_env lon lat =
        Returned ([\<lparr>ForecastOutput.Timestamp = 28800360, TempC = 280.15 - 273.15, WindKt = 1.94384,
                    GustKt = 7 * 1.94384, Direction = ''N''\<rparr>], None)"
    by (simp add: Ingest_collision point_def)
  show ?thesis
    by (intro conjI 1 2 3) (simp_all add: getForecastHour_examples resolve_timestamp_examples)
qed


section \<open>Properties of the grid decoder adapter\<close>

lemma getnum_fixed_all:
  assumes "getnum s True = Some (m, [])"
  shows "length s = 2 \<and> m = digit_val (s ! 0) * 10 + digit_val (s ! 1)"
  using assms by (auto simp: getnum_def split: if_splits)

lemma getnum_rest:
  assumes "getnum s fixed = Some (n, r)"
  shows "r = drop 1 s \<or> r = drop 2 s"
  using assms by (auto simp: getnum_def split: if_splits)

lemma time_Parse_cycle:
  assumes "time_Parse today (c @ ''00'') = Some t"
  shows "\<exists>hour < 24. t = today * Day + int hour * Hour
           \<and> (\<forall>today'. time_Parse today' (c @ ''00'') = Some (today' * Day + int hour * Hour))"
proof -
  from assms obtain hour r where h: "getnum (c @ ''00'') False = Some (hour, r)"
    by (auto simp: time_Parse_def split: option.splits)
  with assms have lt: "hour < 24" by (auto simp: time_Parse_def split: option.splits if_splits)
  from assms h lt obtain minute where m: "getnum r True = Some (minute, [])" "minute < 60"
    and t: "t = today * Day + int hour * Hour + int minute * Minute"
    by (auto simp: time_Parse_def split: option.splits if_splits)
  from getnum_fixed_all[OF m(1)] have len: "length r = 2"
    and mv: "minute = digit_val (r ! 0) * 10 + digit_val (r ! 1)" by simp_all
  from getnum_rest[OF h] have "r = drop 1 (c @ ''00'') \<or> r = drop 2 (c @ ''00'')" .
  then have "r = ''00''"
  proof
    assume a: "r = drop 1 (c @ ''00'')"
    with len have "length c = 1" by simp
    with a show ?thesis by simp
  next
    assume a: "r = drop 2 (c @ ''00'')"
    with len have "length c = 2" by simp
    with a show ?thesis by simp
  qed
  with mv have "minute = 0" by (simp add: digit_val_def)
  with t h m lt show ?thesis
    by (intro exI[of _ hour]) (simp add: time_Parse_def)
qed

lemma hours_duration_in_range:
  assumes "0 \<le> h" "h \<le> 2562047"
  shows "hours_duration h = h * Hour"
proof -
  have "word_of_int h * word_of_int Hour = (word_of_int (h * Hour) :: 64 word)" by simp
  moreover have "0 \<le> h * Hour" using assms by (simp add: Hour_def Minute_def)
  moreover have "h * Hour < 2 ^ 63"
  proof -
    have "h * Hour \<le> 2562047 * Hour" using assms by (simp add: Hour_def Minute_def)
    also have "\<dots> < 2 ^ 63" by (simp add: Hour_def Minute_def)
    finally show ?thesis .
  qed
  ultimately show ?thesis
    unfolding hours_duration_def
    by (simp only: sint_sbintrunc') (simp add: signed_take_bit_int_eq_self)
qed

lemma resolve_timestamp_ok:
  assumes "resolve_timestamp today file = Inr (Inr ts)"
  shows "\<exists>hour fh. hour < 24 \<and> getForecastHour file = Inr fh \<and> 0 \<le> fh
           \<and> ts = today * Day + int hour * Hour + hours_duration fh
           \<and> (\<forall>today'. resolve_timestamp today' file
                  = Inr (Inr (today' * Day + int hour * Hour + hours_duration fh)))"
proof -
  let ?parts = "strings_Split (filepath_Base file) CHR ''.''"
  let ?c = "strings_TrimSuffix (strings_TrimPrefix (?parts ! 1) ''t'') ''z''"
  from assms have len: "\<not> length ?parts < 5"
    by (auto simp: resolve_timestamp_def Let_def split: if_splits)
  then have i1: "index ?parts 1 = Inr (?parts ! 1)" by (simp add: index_def)
  from assms len i1 obtain ct where ct: "time_Parse today (?c @ ''00'') = Some ct"
    by (auto simp: resolve_timestamp_def Let_def split: option.splits)
  obtain fh where fh: "getForecastHour file = Inr fh" using getForecastHour_no_panic by blast
  from assms len i1 ct fh have nn: "0 \<le> fh" and ts: "ts = ct + hours_duration fh"
    by (auto simp: resolve_timestamp_def Let_def split: if_splits)
  from time_Parse_cycle[OF ct] obtain hour where hour: "hour < 24" "ct = today * Day + int hour * Hour"
    "\<And>today'. time_Parse today' (?c @ ''00'') = Some (today' * Day + int hour * Hour)" by blast
  have "\<And>today'. resolve_timestamp today' file
                  = Inr (Inr (today' * Day + int hour * Hour + hours_duration fh))"
    using len i1 hour(3) fh nn by (simp add: resolve_timestamp_def Let_def)
  with hour fh nn ts show ?thesis by blast
qed

lemma processGFSFile_timestamp:
  assumes "processGFSFile pf today res file = Inr (Inr data)"
  shows "resolve_timestamp today file = Inr (Inr (ForecastData.Timestamp data))"
    and "\<And>ts'. resolve_timestamp today' file = Inr (Inr ts') \<Longrightarrow>
           processGFSFile pf today' res file = Inr (Inr (data\<lparr>ForecastData.Timestamp := ts'\<rparr>))"
proof -
  obtain r where r: "resolve_timestamp today file = Inr r" using resolve_timestamp_no_panic by blast
  from assms r obtain ts where ts: "r = Inr ts" by (cases r) (auto simp: processGFSFile_def)
  from assms r ts obtain out where out: "res = Completed out"
    by (cases res) (auto simp: processGFSFile_def)
  from assms r ts out have pv: "parse_values pf ts out = Inr (Inr data)"
    by (simp add: processGFSFile_def)
  then have tsd: "ForecastData.Timestamp data = ts"
    by (auto simp: parse_values_def Let_def split: if_splits sum.splits option.splits prod.splits)
  with r ts show "resolve_timestamp today file = Inr (Inr (ForecastData.Timestamp data))" by simp
  fix ts' assume a: "resolve_timestamp today' file = Inr (Inr ts')"
  from pv have "parse_values pf ts' out = Inr (Inr (data\<lparr>ForecastData.Timestamp := ts'\<rparr>))"
    by (auto simp: parse_values_def Let_def split: if_splits sum.splits option.splits prod.splits)
  with a out show "processGFSFile pf today' res file = Inr (Inr (data\<lparr>ForecastData.Timestamp := ts'\<rparr>))"
    by (simp add: processGFSFile_def)
qed

text \<open>
  C5, as amended. The timestamp of a sample is midnight of the day the clock shows when
  the file is processed, plus the cycle hour of the name, plus the forecast hour as an
  \<^verbatim>\<open>int64\<close> duration, which is the offset in hours for offsets up to 2562047. The cycle
  hour and the offset depend on the name only: the timestamp is \<open>resolve_timestamp\<close> of
  the date and the name, and under another date the same file gives the same sample with
  the timestamp moved to that date.
\<close>

theorem timestamp_from_clock_date:
  assumes "processGFSFile pf today res file = Inr (Inr data)"
  shows "resolve_timestamp today file = Inr (Inr (ForecastData.Timestamp data))
     \<and> (\<exists>hour fh. hour < 24 \<and> getForecastHour file = Inr fh \<and> 0 \<le> fh
           \<and> ForecastData.Timestamp data = today * Day + int hour * Hour + hours_duration fh
           \<and> (fh \<le> 2562047 \<longrightarrow> hours_duration fh = fh * Hour)
           \<and> (\<forall>today'. processGFSFile pf today' res file
                  = Inr (Inr (data\<lparr>ForecastData.Timestamp :=
                                  today' * Day + int hour * Hour + hours_duration fh\<rparr>))))"
proof -
  from processGFSFile_timestamp(1)[OF assms] resolve_timestamp_ok
  obtain hour fh where h: "hour < 24" "getForecastHour file = Inr fh" "0 \<le> fh"
     "ForecastData.Timestamp data = today * Day + int hour * Hour + hours_duration fh"
     "\<And>today'. resolve_timestamp today' file
                  = Inr (Inr (today' * Day + int hour * Hour + hours_duration fh))"
    by blast
  have "\<And>today'. processGFSFile pf today' res file
                  = Inr (Inr (data\<lparr>ForecastData.Timestamp :=
                                  today' * Day + int hour * Hour + hours_duration fh\<rparr>))"
    using processGFSFile_timestamp(2)[OF assms h(5)] .
  moreover have "fh \<le> 2562047 \<longrightarrow> hours_duration fh = fh * Hour"
    using h(3) hours_duration_in_range by blast
  ultimately show ?thesis using h(1-4) processGFSFile_timestamp(1)[OF assms] by blast
qed

lemma processGFSFile_file_1:
  "processGFSFile example_ParseFloat d (Completed (lines_of [''5.0'', ''293.15'', ''0'', ''-1''])) file_1
     = Inr (Inr (sample (d * Day + Hour) 5 293.15))"
  by (simp add: processGFSFile_def resolve_timestamp_examples parse_values_examples)

theorem timestamp_from_clock_date_witness:
  "processGFSFile example_ParseFloat 20001
       (Completed (lines_of [''5.0'', ''293.15'', ''0'', ''-1''])) file_1
     = Inr (Inr (sample (20001 * Day + Hour) 5 293.15))"
proof -
  let ?res = "Completed (lines_of [''5.0'', ''293.15'', ''0'', ''-1''])"
  from timestamp_from_clock_date[OF processGFSFile_file_1[of 20000]]
  obtain hour fh where h: "getForecastHour file_1 = Inr fh"
    "ForecastData.Timestamp (sample (20000 * Day + Hour) 5 293.15)
       = 20000 * Day + int hour * Hour + hours_duration fh"
    "\<And>today'. processGFSFile example_ParseFloat today' ?res file_1
        = Inr (Inr ((sample (20000 * Day + Hour) 5 293.15)\<lparr>ForecastData.Timestamp :=
                       today' * Day + int hour * Hour + hours_duration fh\<rparr>))"
    by blast
  from h(1) have fh: "fh = 1" by (simp add: getForecastHour_examples)
  from h(2) have "int hour * Hour = 0"
    by (simp add: fh hours_duration_small sample_def)
  with h(3)[of 20001] show ?thesis
    by (simp add: fh hours_duration_small sample_def)
qed

text \<open>The claim as stated fails: the same file, with the same decoder output, gets two
  timestamps on two days.\<close>

theorem timestamp_depends_on_clock_counterexample:
  "processGFSFile example_ParseFloat 20000
       (Completed (lines_of [''5.0'', ''293.15'', ''0'', ''-1''])) file_1
     = Inr (Inr (sample (20000 * Day + Hour) 5 293.15))
   \<and> processGFSFile example_ParseFloat 20001
       (Completed (lines_of [''5.0'', ''293.15'', ''0'', ''-1''])) file_1
     = Inr (Inr (sample (20001 * Day + Hour) 5 293.15))
   \<and> ForecastData.Timestamp (sample (20000 * Day + Hour) 5 293.15)
     \<noteq> ForecastData.Timestamp (sample (20001 * Day + Hour) 5 293.15)"
  by (simp add: processGFSFile_file_1 sample_def Day_def Hour_def Minute_def)

lemma parse_values_success:
  "(parse_values pf ts out = Inr (Inr data)) =
     (\<exists>l0 l1 l2 l3 more gust temp u v.
        strings_Split (strings_TrimSpace out) (CHR 0x0A) = l0 # l1 # l2 # l3 # more
        \<and> pf l0 = Some gust \<and> pf l1 = Some temp \<and> pf l2 = Some u \<and> pf l3 = Some v
        \<and> data = \<lparr>ForecastData.Timestamp = ts, Temp2m = temp, UWind10m = u, VWind10m = v,
                    WindGust = gust, WindSpeed = 0, WindDir = 0\<rparr>)"
proof (cases "strings_Split (strings_TrimSpace out) (CHR 0x0A)")
  case Nil
  then show ?thesis by (simp add: parse_values_def)
next
  case c1: (Cons l0 r1)
  show ?thesis
  proof (cases r1)
    case Nil with c1 show ?thesis by (simp add: parse_values_def)
  next
    case c2: (Cons l1 r2)
    show ?thesis
    proof (cases r2)
      case Nil with c1 c2 show ?thesis by (simp add: parse_values_def)
    next
      case c3: (Cons l2 r3)
      show ?thesis
      proof (cases r3)
        case Nil with c1 c2 c3 show ?thesis by (simp add: parse_values_def)
      next
        case c4: (Cons l3 more)
        with c1 c2 c3 show ?thesis
          by (auto simp: parse_values_def index_def split: option.splits)
      qed
    qed
  qed
qed

lemma processGFSFile_success:
  "(processGFSFile pf today res file = Inr (Inr data)) =
     (\<exists>ts out. resolve_timestamp today file = Inr (Inr ts) \<and> res = Completed out
        \<and> parse_values pf ts out = Inr (Inr data))"
proof -
  obtain r where r: "resolve_timestamp today file = Inr r" using resolve_timestamp_no_panic by blast
  show ?thesis using r by (cases r; cases res) (auto simp: processGFSFile_def)
qed

text \<open>
  C7, as amended. \<^verbatim>\<open>processGFSFile\<close> gives a sample exactly when the timestamp resolves, all
  four calls of the decoder pipeline succeed, the trimmed output has at least four lines
  and \<^verbatim>\<open>ParseFloat\<close> accepts the first four; the sample then holds them in the order gust,
  temperature, U wind, V wind. In every other case it gives an error (it never panics);
  in particular when the output has fewer than four lines or \<^verbatim>\<open>ParseFloat\<close> rejects one of
  the first four.
\<close>

theorem adapter_result:
  "((processGFSFile pf today res file = Inr (Inr data)) =
     (\<exists>ts out l0 l1 l2 l3 more gust temp u v.
        resolve_timestamp today file = Inr (Inr ts) \<and> res = Completed out
        \<and> strings_Split (strings_TrimSpace out) (CHR 0x0A) = l0 # l1 # l2 # l3 # more
        \<and> pf l0 = Some gust \<and> pf l1 = Some temp \<and> pf l2 = Some u \<and> pf l3 = Some v
        \<and> data = \<lparr>ForecastData.Timestamp = ts, Temp2m = temp, UWind10m = u, VWind10m = v,
                    WindGust = gust, WindSpeed = 0, WindDir = 0\<rparr>))
   \<and> ((\<exists>e. processGFSFile pf today res file = Inr (Inl e))
        \<or> (\<exists>d. processGFSFile pf today res file = Inr (Inr d)))
   \<and> (\<forall>out. res = Completed out
          \<and> (length (strings_Split (strings_TrimSpace out) (CHR 0x0A)) < 4
               \<or> (\<exists>i < 4. pf (strings_Split (strings_TrimSpace out) (CHR 0x0A) ! i) = None))
        \<longrightarrow> (\<exists>e. processGFSFile pf today res file = Inr (Inl e)))"
proof (intro conjI allI impI)
  show "(processGFSFile pf today res file = Inr (Inr data)) =
     (\<exists>ts out l0 l1 l2 l3 more gust temp u v.
        resolve_timestamp today file = Inr (Inr ts) \<and> res = Completed out
        \<and> strings_Split (strings_TrimSpace out) (CHR 0x0A) = l0 # l1 # l2 # l3 # more
        \<and> pf l0 = Some gust \<and> pf l1 = Some temp \<and> pf l2 = Some u \<and> pf l3 = Some v
        \<and> data = \<lparr>ForecastData.Timestamp = ts, Temp2m = temp, UWind10m = u, VWind10m = v,
                    WindGust = gust, WindSpeed = 0, WindDir = 0\<rparr>)"
    unfolding processGFSFile_success parse_values_success by blast
next
  obtain r where "processGFSFile pf today res file = Inr r"
    using processGFSFile_no_panic by blast
  then show "(\<exists>e. processGFSFile pf today res file = Inr (Inl e))
        \<or> (\<exists>d. processGFSFile pf today res file = Inr (Inr d))"
    by (cases r) auto
next
  fix out
  let ?lines = "strings_Split (strings_TrimSpace out) (CHR 0x0A)"
  assume a: "res = Completed out \<and> (length ?lines < 4 \<or> (\<exists>i < 4. pf (?lines ! i) = None))"
  obtain r where r: "processGFSFile pf today res file = Inr r"
    using processGFSFile_no_panic by blast
  have "\<not> (\<exists>d. r = Inr d)"
  proof
    assume "\<exists>d. r = Inr d"
    then obtain d where "processGFSFile pf today res file = Inr (Inr d)" using r by blast
    then obtain ts out' where "res = Completed out'" "parse_values pf ts out' = Inr (Inr d)"
      unfolding processGFSFile_success by blast
    with a have "parse_values pf ts out = Inr (Inr d)" by simp
    then obtain l0 l1 l2 l3 more gust temp u v where
      l: "?lines = l0 # l1 # l2 # l3 # more" "pf l0 = Some gust" "pf l1 = Some temp"
         "pf l2 = Some u" "pf l3 = Some v"
      unfolding parse_values_success by blast
    from a l(1) obtain i where i: "i < 4" "pf (?lines ! i) = None" by auto
    then have "i = 0 \<or> i = 1 \<or> i = 2 \<or> i = 3" by auto
    with i(2) l show False by auto
  qed
  then show "\<exists>e. processGFSFile pf today res file = Inr (Inl e)"
    using r by (cases r) auto
qed

theorem adapter_result_witness:
  "\<exists>e. processGFSFile example_ParseFloat 20000 (Completed (lines_of [''5.0'', ''293.15''])) file_0
          = Inr (Inl e)"
proof -
  have t: "strings_TrimSpace (lines_of [''5.0'', ''293.15'']) = ''5.0'' @ [CHR 0x0A] @ ''293.15''"
    by (simp add: strings_TrimSpace_def lines_of_def trim_leading.simps space_seqs_def)
  have "length (strings_Split (strings_TrimSpace (lines_of [''5.0'', ''293.15''])) (CHR 0x0A)) < 4"
    unfolding t by simp
  with adapter_result[of example_ParseFloat 20000
      "Completed (lines_of [''5.0'', ''293.15''])" file_0]
  show ?thesis by blast
qed

text \<open>The claim's "only if" fails: awk has delivered four lines that all parse, and the
  adapter still returns an error, because \<^verbatim>\<open>wgrib2\<close> exited with a failure.\<close>

theorem adapter_error_counterexample:
  "processGFSFile example_ParseFloat 20000
       (WaitFailed (lines_of [''5.0'', ''293.15'', ''0'', ''-1''])) file_3
     = Inr (Inl Wgrib2Error)
   \<and> parse_values example_ParseFloat (20000 * Day + 3 * Hour)
        (lines_of [''5.0'', ''293.15'', ''0'', ''-1''])
     = Inr (Inr (sample (20000 * Day + 3 * Hour) 5 293.15))"
  by (simp add: processGFSFile_def resolve_timestamp_examples parse_values_examples)


section \<open>Properties of the fetch orchestrator\<close>

lemma job_frame_refl: "job_frame fn s s"
  by (simp add: job_frame_def split: option.splits)

lemma job_frame_None:
  "staging s = None \<Longrightarrow>
     job_frame fn s s' = (published s' = published s \<and> cancelled s' = cancelled s \<and> staging s' = None)"
  by (simp add: job_frame_def)

lemma job_frame_Some:
  "staging s = Some d \<Longrightarrow>
     job_frame fn s s' = (published s' = published s \<and> cancelled s' = cancelled s \<and>
        (\<exists>d'. staging s' = Some d' \<and> (\<forall>k. k \<noteq> fn \<longrightarrow> k \<noteq> fn @ ''.tmp'' \<longrightarrow> d' k = d k)))"
  by (cases "staging s'") (simp_all add: job_frame_def, blast)

lemma job_frame_trans:
  assumes "job_frame fn s s1" and "job_frame fn s1 s2"
  shows "job_frame fn s s2"
proof (cases "staging s")
  case None
  with assms(1) have 1: "published s1 = published s" "cancelled s1 = cancelled s" "staging s1 = None"
    by (simp_all add: job_frame_None)
  with assms(2) have "published s2 = published s \<and> cancelled s2 = cancelled s \<and> staging s2 = None"
    by (simp add: job_frame_None)
  then show ?thesis using None by (simp add: job_frame_None)
next
  case (Some d)
  with assms(1) obtain d1 where 1: "published s1 = published s" "cancelled s1 = cancelled s"
    "staging s1 = Some d1" "\<And>k. k \<noteq> fn \<Longrightarrow> k \<noteq> fn @ ''.tmp'' \<Longrightarrow> d1 k = d k"
    by (auto simp: job_frame_Some)
  with assms(2) obtain d2 where 2: "published s2 = published s" "cancelled s2 = cancelled s"
    "staging s2 = Some d2" "\<And>k. k \<noteq> fn \<Longrightarrow> k \<noteq> fn @ ''.tmp'' \<Longrightarrow> d2 k = d1 k"
    by (auto simp: job_frame_Some)
  have "\<forall>k. k \<noteq> fn \<longrightarrow> k \<noteq> fn @ ''.tmp'' \<longrightarrow> d2 k = d k"
    using 1(4) 2(4) by simp
  then show ?thesis using Some 2(1-3) by (simp add: job_frame_Some)
qed
lemma job_frame_sleeps: "job_frame fn s s1 \<Longrightarrow> job_frame fn s (s1\<lparr>sleeps := n\<rparr>)"
  by (auto simp: job_frame_def split: option.splits)

lemma downloadFile_frame:
  "downloadFile a url (fn @ ''.tmp'') s = (e, s1) \<Longrightarrow> job_frame fn s s1 \<and> sleeps s1 = sleeps s"
  by (auto simp: downloadFile_def job_frame_def Let_def split: option.splits if_splits http_result.splits)

lemma remove_file_frame: "job_frame fn s (remove_file (fn @ ''.tmp'') s)"
  by (auto simp: remove_file_def job_frame_def split: option.splits)

lemma rename_file_frame: "job_frame fn s (rename_file (fn @ ''.tmp'') fn s)"
  by (auto simp: rename_file_def job_frame_def split: option.splits)

lemma try_download_unfold:
  assumes "downloadFile a url (fn @ ''.tmp'') s = (err, s0)"
  shows "try_download a url fn s =
     (case err of
        Some e \<Rightarrow> Inr (DownloadFailed e, s0)
      | None \<Rightarrow>
          (case stat s0 (fn @ ''.tmp'') of
             None \<Rightarrow> Inr (FileTooSmall, s0)
           | Some sz \<Rightarrow>
               if sz > min_size then
                 (if rename_ok a then Inl (None, rename_file (fn @ ''.tmp'') fn s0)
                  else Inl (Some RenameFailed, remove_file (fn @ ''.tmp'') s0))
               else Inr (FileTooSmall, s0)))"
  by (simp only: try_download_def Let_def assms prod.case)

lemma try_download_cases:
  obtains (retry) e s0 where "try_download a url fn s = Inr (e, s0)"
      "job_frame fn s s0" "sleeps s0 = sleeps s"
  | (renamed) s0 where "try_download a url fn s = Inl (None, rename_file (fn @ ''.tmp'') fn s0)"
      "job_frame fn s s0" "sleeps s0 = sleeps s" "rename_ok a"
  | (rename_failed) s0 where
      "try_download a url fn s = Inl (Some RenameFailed, remove_file (fn @ ''.tmp'') s0)"
      "job_frame fn s s0" "sleeps s0 = sleeps s" "\<not> rename_ok a"
proof -
  obtain err s0 where d: "downloadFile a url (fn @ ''.tmp'') s = (err, s0)" by fastforce
  note u = try_download_unfold[OF d]
  from downloadFile_frame[OF d] have f: "job_frame fn s s0" "sleeps s0 = sleeps s" by simp_all
  show thesis
  proof (cases err)
    case (Some e)
    then have "try_download a url fn s = Inr (DownloadFailed e, s0)" by (simp add: u)
    then show ?thesis using f by (rule retry)
  next
    case None
    show ?thesis
    proof (cases "stat s0 (fn @ ''.tmp'')")
      case n: None
      then have "try_download a url fn s = Inr (FileTooSmall, s0)" by (simp add: u None)
      then show ?thesis using f by (rule retry)
    next
      case (Some sz)
      show ?thesis
      proof (cases "sz > min_size")
        case False
        then have "try_download a url fn s = Inr (FileTooSmall, s0)" by (simp add: u None Some)
        then show ?thesis using f by (rule retry)
      next
        case True
        show ?thesis
        proof (cases "rename_ok a")
          case r: True
          then have "try_download a url fn s = Inl (None, rename_file (fn @ ''.tmp'') fn s0)"
            using True by (simp add: u None Some)
          then show ?thesis using f r by (rule renamed)
        next
          case r: False
          then have "try_download a url fn s = Inl (Some RenameFailed, remove_file (fn @ ''.tmp'') s0)"
            using True by (simp add: u None Some)
          then show ?thesis using f r by (rule rename_failed)
        qed
      qed
    qed
  qed
qed

lemma try_download_frame:
  "try_download a url fn s = Inl (r, s1) \<Longrightarrow> job_frame fn s s1"
  "try_download a url fn s = Inr (e, s1) \<Longrightarrow> job_frame fn s s1"
proof -
  show "try_download a url fn s = Inl (r, s1) \<Longrightarrow> job_frame fn s s1"
  proof (cases rule: try_download_cases[of a url fn s])
    case (retry e s0) then show "try_download a url fn s = Inl (r, s1) \<Longrightarrow> job_frame fn s s1" by simp
  next
    case (renamed s0)
    then show "try_download a url fn s = Inl (r, s1) \<Longrightarrow> job_frame fn s s1"
      using job_frame_trans[OF _ rename_file_frame] by fastforce
  next
    case (rename_failed s0)
    then show "try_download a url fn s = Inl (r, s1) \<Longrightarrow> job_frame fn s s1"
      using job_frame_trans[OF _ remove_file_frame] by fastforce
  qed
  show "try_download a url fn s = Inr (e, s1) \<Longrightarrow> job_frame fn s s1"
    by (cases rule: try_download_cases[of a url fn s]) auto
qed
lemma retry_loop_frame:
  "job_frame fn s (snd (retry_loop env url fn hour attempt lastErr s))"
proof (induction env url fn hour attempt lastErr s rule: retry_loop.induct)
  case (1 env url fn hour attempt lastErr s)
  show ?case
  proof (cases "attempt \<le> maxRetries")
    case False
    then show ?thesis by (subst retry_loop.simps) (simp add: remove_file_frame)
  next
    case True
    show ?thesis
    proof (cases "try_download (attempts env hour attempt) url fn s")
      case (Inl r)
      then have "job_frame fn s (snd r)" using try_download_frame(1)[of _ url fn s "fst r" "snd r"] by simp
      with Inl True show ?thesis by (subst retry_loop.simps) simp
    next
      case (Inr p)
      obtain e s1 where p: "p = (e, s1)" by fastforce
      let ?s2 = "if attempt < maxRetries then s1\<lparr>sleeps := sleeps s1 + 1\<rparr> else s1"
      have f1: "job_frame fn s ?s2"
        using try_download_frame(2)[of _ url fn s e s1] Inr p by (simp add: job_frame_sleeps)
      have "job_frame fn ?s2 (snd (retry_loop env url fn hour (attempt + 1) (Some e) ?s2))"
        using "1.IH"[OF True Inr p[symmetric]] .
      with f1 have "job_frame fn s (snd (retry_loop env url fn hour (attempt + 1) (Some e) ?s2))"
        by (rule job_frame_trans)
      with Inr p True show ?thesis by (subst retry_loop.simps) simp
    qed
  qed
qed

lemma downloadWithRetry_frame:
  "job_frame (gfs_filename cycle hour) s (snd (downloadWithRetry env date cycle hour s))"
  by (simp add: downloadWithRetry_def Let_def job_frame_refl retry_loop_frame)

lemma tmp_neq: "fn @ ''.tmp'' \<noteq> fn" "fn \<noteq> fn @ ''.tmp''"
  by simp_all

lemma downloadFile_None:
  assumes "downloadFile a url p s = (None, s0)"
  shows "\<exists>d n. staging s = Some d \<and> req_ok a \<and> create_ok a \<and> http a = Response 200 n True
           \<and> s0 = s\<lparr>staging := Some (d(p \<mapsto> n)), requests := requests s @ [url]\<rparr>"
  using assms
  by (auto simp: downloadFile_def Let_def split: option.splits if_splits http_result.splits)

lemma downloadFile_good:
  assumes "staging s = Some d" "\<not> attempt_fails a"
  shows "downloadFile a url p s =
           (None, s\<lparr>staging := Some (d(p \<mapsto> body_size a)), requests := requests s @ [url]\<rparr>)"
    and "body_size a > min_size"
  using assms
  by (auto simp: downloadFile_def attempt_fails_def body_size_def Let_def split: http_result.splits)

lemma try_download_fails:
  assumes "attempt_fails a"
  shows "\<exists>e s0. try_download a url fn s = Inr (e, s0) \<and> job_frame fn s s0 \<and> sleeps s0 = sleeps s"
proof -
  obtain err s0 where d: "downloadFile a url (fn @ ''.tmp'') s = (err, s0)" by fastforce
  note u = try_download_unfold[OF d]
  from downloadFile_frame[OF d] have f: "job_frame fn s s0" "sleeps s0 = sleeps s" by simp_all
  show ?thesis
  proof (cases err)
    case (Some e)
    then show ?thesis using u f by simp
  next
    case None
    with d downloadFile_None obtain dd n where n: "staging s = Some dd" "req_ok a" "create_ok a"
      "http a = Response 200 n True"
      "s0 = s\<lparr>staging := Some (dd(fn @ ''.tmp'' \<mapsto> n)), requests := requests s @ [url]\<rparr>"
      by blast
    with assms have "n \<le> min_size" by (simp add: attempt_fails_def)
    moreover have "stat s0 (fn @ ''.tmp'') = Some n" using n(5) by (simp add: stat_def)
    ultimately show ?thesis using u f None by simp
  qed
qed

lemma try_download_good:
  assumes "staging s = Some d" "\<not> attempt_fails a"
  shows "try_download a url fn s =
     (let s0 = s\<lparr>staging := Some (d(fn @ ''.tmp'' \<mapsto> body_size a)), requests := requests s @ [url]\<rparr>
      in if rename_ok a then Inl (None, rename_file (fn @ ''.tmp'') fn s0)
         else Inl (Some RenameFailed, remove_file (fn @ ''.tmp'') s0))"
proof -
  note d = downloadFile_good(1)[OF assms, where url = url and p = "fn @ ''.tmp''"]
  show ?thesis
    unfolding try_download_unfold[OF d]
    using downloadFile_good(2)[OF assms] by (simp add: stat_def Let_def)
qed

lemma stat_remove: "stat (remove_file p s) p = None"
  by (simp add: remove_file_def stat_def split: option.splits)

lemma sleeps_remove: "sleeps (remove_file p s) = sleeps s"
  by (simp add: remove_file_def split: option.splits)

lemma sleeps_rename: "sleeps (rename_file p q s) = sleeps s"
  by (simp add: rename_file_def split: option.splits)

lemma retry_all_fail:
  assumes "\<forall>k. attempt \<le> k \<and> k \<le> maxRetries \<longrightarrow> attempt_fails (attempts env hour k)"
  shows "\<exists>e. fst (retry_loop env url fn hour attempt lastErr s) = Some (FailedAfter maxRetries e)
           \<and> (attempt \<le> maxRetries \<longrightarrow> e \<noteq> None)
           \<and> sleeps (snd (retry_loop env url fn hour attempt lastErr s))
               = sleeps s + (maxRetries - attempt)
           \<and> stat (snd (retry_loop env url fn hour attempt lastErr s)) (fn @ ''.tmp'') = None"
  using assms
proof (induction env url fn hour attempt lastErr s rule: retry_loop.induct)
  case (1 env url fn hour attempt lastErr s)
  show ?case
  proof (cases "attempt \<le> maxRetries")
    case False
    then show ?thesis by (subst (1 2 3) retry_loop.simps) (simp add: stat_remove sleeps_remove)
  next
    case True
    with "1.prems" have "attempt_fails (attempts env hour attempt)" by simp
    from try_download_fails[OF this, of url fn s]
    obtain e s0 where t: "try_download (attempts env hour attempt) url fn s = Inr (e, s0)"
      "sleeps s0 = sleeps s" by blast
    let ?s2 = "if attempt < maxRetries then s0\<lparr>sleeps := sleeps s0 + 1\<rparr> else s0"
    have unf: "retry_loop env url fn hour attempt lastErr s
                 = retry_loop env url fn hour (attempt + 1) (Some e) ?s2"
      using True t(1) by (subst retry_loop.simps) simp
    have "\<forall>k. attempt + 1 \<le> k \<and> k \<le> maxRetries \<longrightarrow> attempt_fails (attempts env hour k)"
      using "1.prems" by simp
    from "1.IH"[OF True t(1) refl this]
    obtain e' where ih: "fst (retry_loop env url fn hour (attempt + 1) (Some e) ?s2)
            = Some (FailedAfter maxRetries e')"
       "attempt + 1 \<le> maxRetries \<longrightarrow> e' \<noteq> None"
       "sleeps (snd (retry_loop env url fn hour (attempt + 1) (Some e) ?s2))
               = sleeps ?s2 + (maxRetries - (attempt + 1))"
       "stat (snd (retry_loop env url fn hour (attempt + 1) (Some e) ?s2)) (fn @ ''.tmp'') = None"
      by blast
    have last: "attempt = maxRetries \<Longrightarrow> e' = Some e"
    proof -
      assume "attempt = maxRetries"
      then have "retry_loop env url fn hour (attempt + 1) (Some e) ?s2
                  = (Some (FailedAfter maxRetries (Some e)), remove_file (fn @ ''.tmp'') ?s2)"
        by (subst retry_loop.simps) simp
      with ih(1) show ?thesis by simp
    qed
    have "e' \<noteq> None" using ih(2) last True by (cases "attempt = maxRetries") auto
    moreover have "sleeps ?s2 + (maxRetries - (attempt + 1)) = sleeps s + (maxRetries - attempt)"
      using True t(2) by auto
    ultimately show ?thesis using ih unf by simp
  qed
qed

lemma job_frame_staging: "job_frame fn s s' \<Longrightarrow> staging s \<noteq> None \<Longrightarrow> staging s' \<noteq> None"
  by (auto simp: job_frame_Some)

lemma retry_success:
  assumes "attempt \<le> k" "k \<le> maxRetries"
    "\<forall>j. attempt \<le> j \<and> j < k \<longrightarrow> attempt_fails (attempts env hour j)"
    "\<not> attempt_fails (attempts env hour k)" "staging s \<noteq> None"
  shows "sleeps (snd (retry_loop env url fn hour attempt lastErr s)) = sleeps s + (k - attempt)
     \<and> stat (snd (retry_loop env url fn hour attempt lastErr s)) (fn @ ''.tmp'') = None
     \<and> (if rename_ok (attempts env hour k)
         then fst (retry_loop env url fn hour attempt lastErr s) = None
              \<and> stat (snd (retry_loop env url fn hour attempt lastErr s)) fn
                    = Some (body_size (attempts env hour k))
         else fst (retry_loop env url fn hour attempt lastErr s) = Some RenameFailed)"
  using assms
proof (induction env url fn hour attempt lastErr s rule: retry_loop.induct)
  case (1 env url fn hour attempt lastErr s)
  from "1.prems" have le: "attempt \<le> maxRetries" by simp
  show ?case
  proof (cases "attempt = k")
    case True
    from "1.prems"(5) obtain d where d: "staging s = Some d" by auto
    note g = try_download_good[OF d, of "attempts env hour k" url fn]
    have r: "retry_loop env url fn hour attempt lastErr s =
       (let s0 = s\<lparr>staging := Some (d(fn @ ''.tmp'' \<mapsto> body_size (attempts env hour k))),
                     requests := requests s @ [url]\<rparr>
        in if rename_ok (attempts env hour k) then (None, rename_file (fn @ ''.tmp'') fn s0)
           else (Some RenameFailed, remove_file (fn @ ''.tmp'') s0))"
      using le True g[OF "1.prems"(4)] by (subst retry_loop.simps) (simp add: Let_def)
    show ?thesis
      unfolding r using True
      by (simp add: Let_def stat_remove sleeps_remove sleeps_rename)
         (simp add: rename_file_def stat_def)
  next
    case False
    with "1.prems" have lt: "attempt < k" and f: "attempt_fails (attempts env hour attempt)" by auto
    from try_download_fails[OF f, of url fn s]
    obtain e s0 where t: "try_download (attempts env hour attempt) url fn s = Inr (e, s0)"
      "job_frame fn s s0" "sleeps s0 = sleeps s" by blast
    let ?s2 = "if attempt < maxRetries then s0\<lparr>sleeps := sleeps s0 + 1\<rparr> else s0"
    have unf: "retry_loop env url fn hour attempt lastErr s
                 = retry_loop env url fn hour (attempt + 1) (Some e) ?s2"
      using le t(1) by (subst retry_loop.simps) simp
    have st: "staging ?s2 \<noteq> None"
      using job_frame_staging[OF t(2) "1.prems"(5)] by simp
    have ltm: "attempt < maxRetries" using lt "1.prems"(2) by simp
    have eq: "sleeps ?s2 + (k - (attempt + 1)) = sleeps s + (k - attempt)"
      using lt ltm t(3) by simp
    have a1: "attempt + 1 \<le> k" using lt by simp
    have a3: "\<forall>j. attempt + 1 \<le> j \<and> j < k \<longrightarrow> attempt_fails (attempts env hour j)"
      using "1.prems"(3) by simp
    note ih = "1.IH"[OF le t(1) refl a1 "1.prems"(2) a3 "1.prems"(4) st]
    from ih show ?thesis unfolding unf eq .
  qed
qed

lemma downloadWithRetry_fresh:
  assumes "stat s (gfs_filename cycle hour) = None"
  shows "downloadWithRetry env date cycle hour s =
           retry_loop env (baseURL @ ''/gfs.'' @ date @ ''/'' @ cycle @ ''/atmos/''
                             @ gfs_filename cycle hour)
             (gfs_filename cycle hour) hour 1 None s"
  using assms by (simp add: downloadWithRetry_def Let_def)

lemma gfs_filename_inj: "gfs_filename c h = gfs_filename c h' \<Longrightarrow> h = h'"
  by (simp add: gfs_filename_def)

lemma gfs_filename_tmp:
  assumes "length h = length h'"
  shows "gfs_filename c h \<noteq> gfs_filename c h' @ ''.tmp''"
proof
  assume "gfs_filename c h = gfs_filename c h' @ ''.tmp''"
  then have "length (gfs_filename c h) = length (gfs_filename c h' @ ''.tmp'')" by simp
  with assms show False by (simp add: gfs_filename_def)
qed

lemma worker_frame:
  "published (snd (worker env date cycle hs s)) = published s"
proof (induction hs arbitrary: s)
  case Nil then show ?case by simp
next
  case (Cons h hs)
  have "published (snd (downloadWithRetry env date cycle h s)) = published s"
    using downloadWithRetry_frame[of cycle h s env date] by (simp add: job_frame_def)
  then show ?case using Cons[of "snd (downloadWithRetry env date cycle h s)"]
    by (simp add: split_beta Let_def)
qed

lemma worker_reports_failure:
  assumes "h0 \<in> set hs" "distinct hs" "\<forall>h \<in> set hs. length h = n"
    "\<forall>k. 1 \<le> k \<and> k \<le> maxRetries \<longrightarrow> attempt_fails (attempts env h0 k)"
    "\<not> cancelled s" "staging s = Some d" "\<forall>h \<in> set hs. d (gfs_filename cycle h) = None"
  shows "\<exists>e. Some e \<in> set (fst (worker env date cycle hs s))"
  using assms
proof (induction hs arbitrary: s d)
  case Nil then show ?case by simp
next
  case (Cons h hs)
  let ?r = "downloadWithRetry env date cycle h s"
  have fr: "job_frame (gfs_filename cycle h) s (snd ?r)" by (rule downloadWithRetry_frame)
  have st: "stat s (gfs_filename cycle h) = None" using Cons.prems(6,7) by (simp add: stat_def)
  have w: "fst (worker env date cycle (h # hs) s)
            = fst ?r # fst (worker env date cycle hs (snd ?r))"
    using Cons.prems(5) by (simp add: split_beta Let_def)
  show ?case
  proof (cases "h = h0")
    case True
    from retry_all_fail[OF Cons.prems(4)]
    obtain e where "fst ?r = Some (FailedAfter maxRetries e)"
      unfolding downloadWithRetry_fresh[OF st] True[symmetric] by blast
    then show ?thesis using w by auto
  next
    case False
    with Cons.prems(1) have in_t: "h0 \<in> set hs" by simp
    from fr Cons.prems(6) obtain d1 where d1: "staging (snd ?r) = Some d1"
      "\<And>k. k \<noteq> gfs_filename cycle h \<Longrightarrow> k \<noteq> gfs_filename cycle h @ ''.tmp'' \<Longrightarrow> d1 k = d k"
      by (auto simp: job_frame_Some)
    have c1: "\<not> cancelled (snd ?r)" using fr Cons.prems(5) by (simp add: job_frame_def)
    have "\<forall>h' \<in> set hs. d1 (gfs_filename cycle h') = None"
    proof
      fix h' assume h': "h' \<in> set hs"
      with Cons.prems(2) have "h' \<noteq> h" by auto
      then have 1: "gfs_filename cycle h' \<noteq> gfs_filename cycle h" using gfs_filename_inj by blast
      have "length h' = length h" using Cons.prems(3) h' by simp
      then have 2: "gfs_filename cycle h' \<noteq> gfs_filename cycle h @ ''.tmp''"
        by (rule gfs_filename_tmp)
      show "d1 (gfs_filename cycle h') = None" using d1(2)[OF 1 2] Cons.prems(7) h' by simp
    qed
    from Cons.IH[OF in_t _ _ Cons.prems(4) c1 d1(1) this] Cons.prems(2,3)
    obtain e where "Some e \<in> set (fst (worker env date cycle hs (snd ?r)))" by auto
    then show ?thesis using w by auto
  qed
qed

lemma forecastHours_distinct: "distinct forecastHours"
  by (simp add: forecastHours_def)

text \<open>
  C2. When every attempt for one of the forecast hours fails, \<^verbatim>\<open>run\<close> returns an error, the
  published directory is what it was before the run, and the staging directory is gone;
  when the two \<^verbatim>\<open>mkdir\<close> calls succeed, the error is the count of failed downloads.
\<close>

theorem failed_download_keeps_published:
  assumes "h \<in> set forecastHours"
    and "\<forall>k. 1 \<le> k \<and> k \<le> maxRetries \<longrightarrow> attempt_fails (attempts env h k)"
  shows "(\<exists>e. fst (run env pub) = Some e)
     \<and> published (snd (run env pub)) = pub
     \<and> staging (snd (run env pub)) = None
     \<and> (mkdir_parent_ok env \<and> mkdir_temp_ok env \<longrightarrow>
          (\<exists>n > 0. fst (run env pub) = Some (DownloadsFailed n)))"
proof (cases "mkdir_parent_ok env \<and> mkdir_temp_ok env")
  case False
  then show ?thesis by (auto simp: run_def initial_state_def Let_def)
next
  case True
  let ?s1 = "(initial_state pub)\<lparr>staging := Some Map.empty\<rparr>"
  obtain date cycle where c: "getCurrentCycle env = (date, cycle)" by fastforce
  let ?w = "worker env date cycle forecastHours ?s1"
  have len: "\<forall>h \<in> set forecastHours. length h = 3" using forecastHours_plain by blast
  have "\<exists>e. Some e \<in> set (fst ?w)"
    by (rule worker_reports_failure[OF assms(1) forecastHours_distinct len assms(2), of ?s1 Map.empty])
       (simp_all add: initial_state_def)
  then have pos: "0 < length (filter (\<lambda>err. err \<noteq> None) (fst ?w))"
    by (auto simp: filter_empty_conv)
  have pub: "published (snd ?w) = pub"
    by (simp add: worker_frame initial_state_def)
  have r: "run env pub = (Some (DownloadsFailed (length (filter (\<lambda>err. err \<noteq> None) (fst ?w)))),
                          cleanup (snd ?w))"
    using True c pos by (simp add: run_def Let_def split_beta)
  show ?thesis using pos pub by (simp add: r cleanup_def)
qed

lemma one_failure_hyps:
  "''013'' \<in> set forecastHours"
  "\<forall>k. 1 \<le> k \<and> k \<le> maxRetries \<longrightarrow> attempt_fails (attempts one_failure_env ''013'' k)"
  by (simp_all add: forecastHours_def one_failure_env_def example_download_env_def
      attempt_fails_def good_attempt_def)

theorem failed_download_keeps_published_witness:
  "(\<exists>e. fst (run one_failure_env (Some old_dir)) = Some e)
     \<and> published (snd (run one_failure_env (Some old_dir))) = Some old_dir
     \<and> staging (snd (run one_failure_env (Some old_dir))) = None"
  using failed_download_keeps_published[OF one_failure_hyps, of "Some old_dir"] by blast

lemma stat_published: "stat (s\<lparr>published := p\<rparr>) x = stat s x"
  by (simp add: stat_def)

lemma remove_file_published:
  "remove_file x (s\<lparr>published := p\<rparr>) = (remove_file x s)\<lparr>published := p\<rparr>"
  by (simp add: remove_file_def split: option.splits)

lemma rename_file_published:
  "rename_file x y (s\<lparr>published := p\<rparr>) = (rename_file x y s)\<lparr>published := p\<rparr>"
  by (simp add: rename_file_def split: option.splits)

lemma downloadFile_published:
  "downloadFile a url x (s\<lparr>published := p\<rparr>) =
     (fst (downloadFile a url x s), (snd (downloadFile a url x s))\<lparr>published := p\<rparr>)"
  by (simp add: downloadFile_def Let_def split: option.splits http_result.splits)

lemma try_download_published:
  "try_download a url fn (s\<lparr>published := p\<rparr>) =
     map_sum (\<lambda>(r, s'). (r, s'\<lparr>published := p\<rparr>)) (\<lambda>(e, s'). (e, s'\<lparr>published := p\<rparr>))
       (try_download a url fn s)"
proof -
  obtain err s0 where d: "downloadFile a url (fn @ ''.tmp'') s = (err, s0)" by fastforce
  then have d': "downloadFile a url (fn @ ''.tmp'') (s\<lparr>published := p\<rparr>) = (err, s0\<lparr>published := p\<rparr>)"
    by (simp add: downloadFile_published)
  show ?thesis
    unfolding try_download_unfold[OF d] try_download_unfold[OF d']
    by (simp add: stat_published remove_file_published rename_file_published
        split: option.splits)
qed

lemma published_sleeps_commute:
  "s\<lparr>published := p, sleeps := n\<rparr> = s\<lparr>sleeps := n, published := p\<rparr>"
  by (cases s) simp

lemma retry_loop_published:
  "retry_loop env url fn hour attempt lastErr (s\<lparr>published := p\<rparr>) =
     (fst (retry_loop env url fn hour attempt lastErr s),
      (snd (retry_loop env url fn hour attempt lastErr s))\<lparr>published := p\<rparr>)"
proof (induction env url fn hour attempt lastErr s rule: retry_loop.induct)
  case (1 env url fn hour attempt lastErr s)
  show ?case
  proof (cases "attempt \<le> maxRetries")
    case False
    then show ?thesis
      by (subst (1 2 3) retry_loop.simps) (simp add: remove_file_published)
  next
    case True
    show ?thesis
    proof (cases "try_download (attempts env hour attempt) url fn s")
      case (Inl r)
      then show ?thesis using True
        by (subst (1 2 3) retry_loop.simps) (simp add: try_download_published split_beta)
    next
      case (Inr q)
      obtain e s1 where q: "q = (e, s1)" by fastforce
      let ?s2 = "if attempt < maxRetries then s1\<lparr>sleeps := sleeps s1 + 1\<rparr> else s1"
      have l: "retry_loop env url fn hour attempt lastErr s
                = retry_loop env url fn hour (attempt + 1) (Some e) ?s2"
        using True Inr q by (subst retry_loop.simps) simp
      have "(if attempt < maxRetries then (s1\<lparr>published := p\<rparr>)\<lparr>sleeps := sleeps (s1\<lparr>published := p\<rparr>) + 1\<rparr>
             else s1\<lparr>published := p\<rparr>) = ?s2\<lparr>published := p\<rparr>" by simp
      then have r: "retry_loop env url fn hour attempt lastErr (s\<lparr>published := p\<rparr>)
                = retry_loop env url fn hour (attempt + 1) (Some e) (?s2\<lparr>published := p\<rparr>)"
        using True Inr q
        by (subst retry_loop.simps) (simp add: try_download_published published_sleeps_commute)
      show ?thesis unfolding l r using "1.IH"[OF True Inr q[symmetric]] .
    qed
  qed
qed

text \<open>
  C6, as amended. The skip of \<^verbatim>\<open>downloadWithRetry\<close> looks at the staging directory: a file
  of this hour there, larger than 1 MiB, makes the job return success with the state
  unchanged, so with no request made. The published directory has no part in the job:
  with another published directory the job gives the same result and leaves that
  directory as it is.
\<close>

theorem skip_looks_at_staging:
  "(\<forall>d n. staging s = Some d \<and> d (gfs_filename cycle hour) = Some n \<and> n > min_size
       \<longrightarrow> downloadWithRetry env date cycle hour s = (None, s))
   \<and> downloadWithRetry env date cycle hour (s\<lparr>published := p\<rparr>) =
       (fst (downloadWithRetry env date cycle hour s),
        (snd (downloadWithRetry env date cycle hour s))\<lparr>published := p\<rparr>)"
proof (intro conjI allI impI)
  fix d n
  assume "staging s = Some d \<and> d (gfs_filename cycle hour) = Some n \<and> n > min_size"
  then show "downloadWithRetry env date cycle hour s = (None, s)"
    by (simp add: downloadWithRetry_def stat_def)
next
  show "downloadWithRetry env date cycle hour (s\<lparr>published := p\<rparr>) =
       (fst (downloadWithRetry env date cycle hour s),
        (snd (downloadWithRetry env date cycle hour s))\<lparr>published := p\<rparr>)"
    by (simp add: downloadWithRetry_def Let_def stat_published retry_loop_published)
qed

theorem skip_looks_at_staging_witness:
  "downloadWithRetry offline_env ''20240501'' ''00'' ''000'' (fresh_state\<lparr>staging := Some old_dir\<rparr>)
     = (None, fresh_state\<lparr>staging := Some old_dir\<rparr>)"
proof -
  have "staging (fresh_state\<lparr>staging := Some old_dir\<rparr>) = Some old_dir
        \<and> old_dir (gfs_filename ''00'' ''000'') = Some 2097152 \<and> 2097152 > min_size"
    by (simp add: old_dir_def min_size_def)
  with skip_looks_at_staging[of "fresh_state\<lparr>staging := Some old_dir\<rparr>" "''00''" "''000''"
      offline_env "''20240501''"]
  show ?thesis by blast
qed

lemma offline_attempt:
  "attempts offline_env h k = good_attempt\<lparr>http := DoFailed\<rparr>"
  by (simp add: offline_env_def example_download_env_def)

text \<open>The claim as stated fails: the published directory holds a file of 2 MiB for hour
  000, and the job still makes its three requests and reports the failure.\<close>

theorem published_file_not_skipped_counterexample:
  "published fresh_state = Some old_dir
   \<and> old_dir (gfs_filename ''00'' ''000'') = Some 2097152
   \<and> min_size < 2097152
   \<and> fst (downloadWithRetry offline_env ''20240501'' ''00'' ''000'' fresh_state)
       = Some (FailedAfter 3 (Some (DownloadFailed MakingRequest)))
   \<and> length (requests (snd (downloadWithRetry offline_env ''20240501'' ''00'' ''000'' fresh_state)))
       = 3"
proof -
  have st: "stat fresh_state (gfs_filename ''00'' ''000'') = None"
    by (simp add: fresh_state_def stat_def initial_state_def)
  show ?thesis
    unfolding downloadWithRetry_fresh[OF st]
    by (simp add: retry_loop.simps try_download_def downloadFile_def offline_attempt
        good_attempt_def maxRetries_def fresh_state_def initial_state_def old_dir_def
        min_size_def stat_def remove_file_def Let_def)
qed

text \<open>
  C8, as amended. A job that is not skipped makes at most three attempts. Every failed
  attempt (request not built, file not created, request failed, status other than 200,
  copy broken off, file not larger than 1 MiB) is followed by the next attempt, after one
  sleep, but the last one. When all three fail the job reports an error and the temporary
  file is gone, after two sleeps. When attempt \<open>k\<close> is the first to succeed, the job has
  slept \<open>k - 1\<close> times; it then renames the file and reports success, or, when the rename
  fails, removes the temporary file and reports that error at once.
\<close>

theorem retry_semantics:
  assumes "staging s = Some d" and "d (gfs_filename cycle hour) = None"
    and "r = downloadWithRetry env date cycle hour s"
  shows "maxRetries = 3
   \<and> ((\<forall>k. 1 \<le> k \<and> k \<le> maxRetries \<longrightarrow> attempt_fails (attempts env hour k)) \<longrightarrow>
        (\<exists>e. fst r = Some (FailedAfter maxRetries (Some e)))
        \<and> sleeps (snd r) = sleeps s + 2
        \<and> stat (snd r) (gfs_filename cycle hour @ ''.tmp'') = None)
   \<and> (\<forall>k. 1 \<le> k \<and> k \<le> maxRetries
          \<and> (\<forall>j. 1 \<le> j \<and> j < k \<longrightarrow> attempt_fails (attempts env hour j))
          \<and> \<not> attempt_fails (attempts env hour k) \<longrightarrow>
        sleeps (snd r) = sleeps s + (k - 1)
        \<and> stat (snd r) (gfs_filename cycle hour @ ''.tmp'') = None
        \<and> (if rename_ok (attempts env hour k)
            then fst r = None
                 \<and> stat (snd r) (gfs_filename cycle hour) = Some (body_size (attempts env hour k))
            else fst r = Some RenameFailed))"
proof -
  let ?url = "baseURL @ ''/gfs.'' @ date @ ''/'' @ cycle @ ''/atmos/'' @ gfs_filename cycle hour"
  let ?fn = "gfs_filename cycle hour"
  have st: "stat s ?fn = None" using assms(1,2) by (simp add: stat_def)
  have r: "r = retry_loop env ?url ?fn hour 1 None s"
    using assms(3) downloadWithRetry_fresh[OF st] by simp
  have sn: "staging s \<noteq> None" using assms(1) by simp
  have 1: "maxRetries = 3" by (simp add: maxRetries_def)
  have 2: "(\<forall>k. 1 \<le> k \<and> k \<le> maxRetries \<longrightarrow> attempt_fails (attempts env hour k)) \<longrightarrow>
        (\<exists>e. fst r = Some (FailedAfter maxRetries (Some e)))
        \<and> sleeps (snd r) = sleeps s + 2
        \<and> stat (snd r) (?fn @ ''.tmp'') = None"
  proof
    assume a: "\<forall>k. 1 \<le> k \<and> k \<le> maxRetries \<longrightarrow> attempt_fails (attempts env hour k)"
    from retry_all_fail[OF a, of ?url ?fn None s]
    obtain e where e: "fst r = Some (FailedAfter maxRetries e)" "1 \<le> maxRetries \<longrightarrow> e \<noteq> None"
      "sleeps (snd r) = sleeps s + (maxRetries - 1)" "stat (snd r) (?fn @ ''.tmp'') = None"
      unfolding r by blast
    from e(2) obtain e' where "e = Some e'" by (auto simp: maxRetries_def)
    with e show "(\<exists>e. fst r = Some (FailedAfter maxRetries (Some e)))
        \<and> sleeps (snd r) = sleeps s + 2 \<and> stat (snd r) (?fn @ ''.tmp'') = None"
      by (simp add: maxRetries_def)
  qed
  have 3: "\<forall>k. 1 \<le> k \<and> k \<le> maxRetries
          \<and> (\<forall>j. 1 \<le> j \<and> j < k \<longrightarrow> attempt_fails (attempts env hour j))
          \<and> \<not> attempt_fails (attempts env hour k) \<longrightarrow>
        sleeps (snd r) = sleeps s + (k - 1)
        \<and> stat (snd r) (?fn @ ''.tmp'') = None
        \<and> (if rename_ok (attempts env hour k)
            then fst r = None \<and> stat (snd r) ?fn = Some (body_size (attempts env hour k))
            else fst r = Some RenameFailed)"
  proof (intro allI impI)
    fix k
    assume a: "1 \<le> k \<and> k \<le> maxRetries
          \<and> (\<forall>j. 1 \<le> j \<and> j < k \<longrightarrow> attempt_fails (attempts env hour j))
          \<and> \<not> attempt_fails (attempts env hour k)"
    then have a1: "1 \<le> k" and a2: "k \<le> maxRetries"
      and a3: "\<forall>j. 1 \<le> j \<and> j < k \<longrightarrow> attempt_fails (attempts env hour j)"
      and a4: "\<not> attempt_fails (attempts env hour k)" by simp_all
    from retry_success[OF a1 a2 a3 a4 sn, of ?url ?fn None]
    show "sleeps (snd r) = sleeps s + (k - 1)
        \<and> stat (snd r) (?fn @ ''.tmp'') = None
        \<and> (if rename_ok (attempts env hour k)
            then fst r = None \<and> stat (snd r) ?fn = Some (body_size (attempts env hour k))
            else fst r = Some RenameFailed)"
      unfolding r .
  qed
  from 1 2 3 show ?thesis by (intro conjI)
qed

lemma create_fails_once_attempts:
  "attempts create_fails_once_env h k =
     (if k = 1 then good_attempt\<lparr>create_ok := False\<rparr> else good_attempt)"
  by (simp add: create_fails_once_env_def example_download_env_def)

lemma create_fails_once_second:
  "(1::nat) \<le> 2 \<and> 2 \<le> maxRetries
     \<and> (\<forall>j. 1 \<le> j \<and> j < 2 \<longrightarrow> attempt_fails (attempts create_fails_once_env ''000'' j))
     \<and> \<not> attempt_fails (attempts create_fails_once_env ''000'' 2)"
proof (intro conjI allI impI)
  fix j :: nat assume "1 \<le> j \<and> j < 2"
  then have "j = 1" by simp
  then show "attempt_fails (attempts create_fails_once_env ''000'' j)"
    by (simp add: create_fails_once_attempts attempt_fails_def good_attempt_def)
qed (simp_all add: maxRetries_def create_fails_once_attempts attempt_fails_def
      good_attempt_def min_size_def)

lemma fresh_state_simps:
  "staging fresh_state = Some Map.empty" "sleeps fresh_state = 0"
  "published fresh_state = Some old_dir"
  "stat fresh_state x = None"
  by (simp_all add: fresh_state_def initial_state_def stat_def)

theorem retry_semantics_witness:
  "fst (downloadWithRetry create_fails_once_env ''20240501'' ''00'' ''000'' fresh_state) = None
   \<and> sleeps (snd (downloadWithRetry create_fails_once_env ''20240501'' ''00'' ''000'' fresh_state))
       = 1"
proof -
  have e: "Map.empty (gfs_filename ''00'' ''000'') = None" by simp
  have ok: "rename_ok (attempts create_fails_once_env ''000'' 2)"
    by (simp add: create_fails_once_attempts good_attempt_def)
  from retry_semantics[OF fresh_state_simps(1) e refl,
      of create_fails_once_env "''000''" "''20240501''" "''00''"]
  have "\<forall>k. 1 \<le> k \<and> k \<le> maxRetries
          \<and> (\<forall>j. 1 \<le> j \<and> j < k \<longrightarrow> attempt_fails (attempts create_fails_once_env ''000'' j))
          \<and> \<not> attempt_fails (attempts create_fails_once_env ''000'' k) \<longrightarrow>
        sleeps (snd (downloadWithRetry create_fails_once_env ''20240501'' ''00'' ''000'' fresh_state))
          = sleeps fresh_state + (k - 1)
        \<and> (if rename_ok (attempts create_fails_once_env ''000'' k)
            then fst (downloadWithRetry create_fails_once_env ''20240501'' ''00'' ''000'' fresh_state) = None
            else fst (downloadWithRetry create_fails_once_env ''20240501'' ''00'' ''000'' fresh_state)
                   = Some RenameFailed)"
    by simp
  from this[rule_format, OF create_fails_once_second] ok show ?thesis
    by (simp add: fresh_state_simps)
qed

text \<open>The claim as stated fails for \<^verbatim>\<open>os.Create\<close>: its error on the first attempt is retried
  like any other, and the job succeeds on the second.\<close>

theorem create_error_retried_counterexample:
  "\<not> create_ok (attempts create_fails_once_env ''000'' 1)
   \<and> fst (downloadWithRetry create_fails_once_env ''20240501'' ''00'' ''000'' fresh_state) = None
   \<and> stat (snd (downloadWithRetry create_fails_once_env ''20240501'' ''00'' ''000'' fresh_state))
        (gfs_filename ''00'' ''000'') = Some 2097152"
proof -
  have ok: "rename_ok (attempts create_fails_once_env ''000'' 2)"
    "body_size (attempts create_fails_once_env ''000'' 2) = 2097152"
    by (simp_all add: create_fails_once_attempts good_attempt_def body_size_def)
  have sn: "staging fresh_state \<noteq> None" by (simp add: fresh_state_simps)
  from create_fails_once_second have c: "(1::nat) \<le> 2" "2 \<le> maxRetries"
    "\<forall>j. 1 \<le> j \<and> j < 2 \<longrightarrow> attempt_fails (attempts create_fails_once_env ''000'' j)"
    "\<not> attempt_fails (attempts create_fails_once_env ''000'' 2)" by simp_all
  have "\<not> create_ok (attempts create_fails_once_env ''000'' 1)"
    by (simp add: create_fails_once_attempts good_attempt_def)
  then show ?thesis
    unfolding downloadWithRetry_fresh[OF fresh_state_simps(4)]
    using retry_success[OF c sn, where lastErr = None] ok by simp
qed

end
